theory Spec2Isabelle
  imports Complex_Main "HOL-Library.Sublist"
begin

section \<open>Values, exceptions and optimizer objects\<close>

text \<open>
  The benchmark runner of \<^verbatim>\<open>src/lib/benchmark.py\<close> drives optimizer objects that come
  from outside (jaxopt solvers, user subclasses of CustomOptimizer).  Python exceptions
  are values of \<open>exn\<close>; a call that may raise returns \<open>exn + 'a\<close> with \<open>Inl\<close> the
  exception.  Everything a solver call, the clock or the random generator may read and
  change besides its arguments is a world \<open>'w\<close> that is threaded through every call.
\<close>

datatype exn =
    SystemExit int
  | AttributeError
  | TypeError
  | KeyError
  | IndexError
  | Raised string

text \<open>
  Python values as far as the runner looks at them: \<open>None\<close>, numbers, any other
  immutable object (a jax array, a callable such as a step-size schedule, a string), and
  a reference \<open>VRef a\<close> to a mutable object (a NumPy array, a list).  What a mutable
  object holds is part of the world, so that a call can change it in place; the runner
  itself never looks inside a solution, it hands the value or the reference on.  Floats
  are read as reals.
\<close>

datatype 'o val = VNone | VInt int | VFloat real | VObj 'o | VRef nat

type_synonym 'o kwargs = "string \<rightharpoonup> 'o val"

type_synonym 'o result = "string \<rightharpoonup> 'o val list"

text \<open>
  The optimizer state.  \<open>error\<close> is \<open>None\<close> when the state object has no such
  attribute (the \<open>State\<close> of a custom optimizer carries only \<open>iter_num\<close> and
  \<open>stepsize\<close>); reading it then raises AttributeError.
\<close>

record opt_state =
  iter_num :: int
  stepsize :: real
  error :: "real option"

text \<open>
  A solver object: \<open>is_custom\<close> is the outcome of
  \<^verbatim>\<open>issubclass(type(solver), custom_optimizer.CustomOptimizer)\<close>, \<open>default_x_init\<close> the
  attribute \<^verbatim>\<open>solver.x_init\<close>, the three methods take the keyword arguments where the
  source passes them.
\<close>

record ('o, 'w) solver =
  is_custom :: bool
  maxiter :: int
  default_x_init :: "'o val"
  init_state :: "'o val \<Rightarrow> 'o kwargs \<Rightarrow> 'w \<Rightarrow> exn + (opt_state \<times> 'w)"
  update :: "'o val \<Rightarrow> opt_state \<Rightarrow> 'o kwargs \<Rightarrow> 'w \<Rightarrow> exn + (('o val \<times> opt_state) \<times> 'w)"
  solver_stop_criterion :: "'o val \<Rightarrow> opt_state \<Rightarrow> 'w \<Rightarrow> exn + (bool \<times> 'w)"

text \<open>
  The objective \<^verbatim>\<open>problem.f\<close>.  It reads its argument in the world of the call, where
  the contents of a mutable argument are, and changes nothing.
\<close>

record ('o, 'w) problem =
  problem_f :: "'o val \<Rightarrow> 'w \<Rightarrow> exn + 'o val"

text \<open>
  What the runner takes from modules that are not part of the source at hand:
  \<^verbatim>\<open>time.time()\<close>, the constructor call
  \<^verbatim>\<open>jaxopt.GradientDescent(fun=self.problem.f, **params)\<close>, \<^verbatim>\<open>jnp.array\<close>, and the
  names \<^verbatim>\<open>check_method\<close>, \<^verbatim>\<open>available_built_in_methods\<close> of \<^verbatim>\<open>methods.py\<close> and the
  allow-list of \<^verbatim>\<open>metrics.py\<close>.
\<close>

record ('o, 'w) lib =
  time_time :: "'w \<Rightarrow> real \<times> 'w"
  GradientDescent :: "('o, 'w) problem \<Rightarrow> 'o kwargs \<Rightarrow> exn + ('o, 'w) solver"
  jnp_array :: "'o val \<Rightarrow> exn + 'o val"
  methods_check_method :: "string list \<Rightarrow> bool"
  methods_available_built_in_methods :: "string list"
  metrics_available :: "string list"

section \<open>The solver loop: \<^verbatim>\<open>Benchmark.__run_solver\<close>\<close>

text \<open>
  Ghost events, kept beside the loop variables and read by no branch of the code: which
  iteration consulted a stop condition, and which iteration called \<open>update\<close>, with the
  solution that came back and the world the call left behind.
\<close>

datatype ('o, 'w) event = StopCheck nat | UpdateStep nat "'o val" 'w

record ('o, 'w) loop_vars =
  v_sol :: "'o val"
  v_state :: opt_state
  v_x_prev :: "'o val"
  v_result :: "'o result"
  v_trace :: "('o, 'w) event list"

text \<open>
  Line 74: \<^verbatim>\<open>def stop_criterion(err, tol): return err < tol\<close>.  A float compares with a
  number; against \<open>None\<close> the comparison raises TypeError, and against any other object it
  is taken to raise as well.  The loop only ever passes the number that \<open>resolve_tol\<close>
  below yields.
\<close>

fun stop_criterion :: "real \<Rightarrow> 'o val \<Rightarrow> exn + bool" where
  "stop_criterion err (VFloat t) = Inr (err < t)"
| "stop_criterion err (VInt n) = Inr (err < of_int n)"
| "stop_criterion err VNone = Inl TypeError"
| "stop_criterion err (VObj x) = Inl TypeError"
| "stop_criterion err (VRef a) = Inl TypeError"

text \<open>
  Lines 77-80.  The guard reads \<^verbatim>\<open>not custom_optimizer\<close>: \<^verbatim>\<open>custom_optimizer\<close> is the
  module imported at the top of the file, and a module object is true.
\<close>

definition custom_optimizer :: bool where
  "custom_optimizer = True"

definition resolve_tol :: "'o kwargs \<Rightarrow> 'o val" where
  "resolve_tol kw =
     (if \<not> custom_optimizer \<and> kw ''tol'' \<noteq> None then the (kw ''tol'')
      else VFloat (1 / 1000))"

text \<open>
  Lines 66-71: both wrappers call \<^verbatim>\<open>solver.update(sol, state, *args, **kwargs)\<close>;
  \<^verbatim>\<open>jax.jit\<close> compiles the call and is taken to leave its outcome as it is.
\<close>

definition jitted_update ::
  "('o, 'w) solver \<Rightarrow> 'o kwargs \<Rightarrow> 'o val \<Rightarrow> opt_state \<Rightarrow> 'w \<Rightarrow> exn + (('o val \<times> opt_state) \<times> 'w)" where
  "jitted_update s kw x st w = update s x st kw w"

definition plain_update ::
  "('o, 'w) solver \<Rightarrow> 'o kwargs \<Rightarrow> 'o val \<Rightarrow> opt_state \<Rightarrow> 'w \<Rightarrow> exn + (('o val \<times> opt_state) \<times> 'w)" where
  "plain_update s kw x st w = update s x st kw w"

text \<open>
  The pattern of lines 95-99, 100-104 and 119-123: create the series with its first
  entry, or append to it.  What is stored is the object given, no copy of it: for a
  mutable solution the list holds the reference, and several entries may be one object.
\<close>

definition append_metric :: "string \<Rightarrow> 'o val \<Rightarrow> 'o result \<Rightarrow> 'o result" where
  "append_metric k x r = (case r k of None \<Rightarrow> r(k \<mapsto> [x]) | Some xs \<Rightarrow> r(k \<mapsto> xs @ [x]))"

definition record_history_x :: "string list \<Rightarrow> 'o val \<Rightarrow> 'o result \<Rightarrow> 'o result" where
  "record_history_x mets x r =
     (if ''history_x'' \<in> set mets then append_metric ''history_x'' x r else r)"

definition record_history_f ::
  "('o, 'w) problem \<Rightarrow> string list \<Rightarrow> 'o val \<Rightarrow> 'w \<Rightarrow> 'o result \<Rightarrow> exn + 'o result" where
  "record_history_f p mets x w r =
     (if ''history_f'' \<in> set mets then
        (case problem_f p x w of
           Inl e \<Rightarrow> Inl e
         | Inr y \<Rightarrow> Inr (append_metric ''history_f'' y r))
      else Inr r)"

text \<open>Lines 105-109: \<^verbatim>\<open>result["nit"] = [1]\<close>, afterwards \<^verbatim>\<open>result["nit"][0] += 1\<close>.\<close>

fun incr_first :: "'o val list \<Rightarrow> exn + 'o val list" where
  "incr_first [] = Inl IndexError"
| "incr_first (VInt n # xs) = Inr (VInt (n + 1) # xs)"
| "incr_first (VFloat a # xs) = Inr (VFloat (a + 1) # xs)"
| "incr_first (VNone # xs) = Inl TypeError"
| "incr_first (VObj x # xs) = Inl TypeError"
| "incr_first (VRef a # xs) = Inl TypeError"

definition record_nit :: "string list \<Rightarrow> 'o result \<Rightarrow> exn + 'o result" where
  "record_nit mets r =
     (if ''nit'' \<in> set mets then
        (case r ''nit'' of
           None \<Rightarrow> Inr (r(''nit'' \<mapsto> [VInt 1]))
         | Some xs \<Rightarrow> (case incr_first xs of Inl e \<Rightarrow> Inl e | Inr ys \<Rightarrow> Inr (r(''nit'' \<mapsto> ys))))
      else Inr r)"

definition record_errors :: "string list \<Rightarrow> opt_state \<Rightarrow> 'o result \<Rightarrow> exn + 'o result" where
  "record_errors mets st r =
     (if ''errors'' \<in> set mets then
        (case error st of
           None \<Rightarrow> Inl AttributeError
         | Some e \<Rightarrow> Inr (append_metric ''errors'' (VFloat e) r))
      else Inr r)"

text \<open>
  Lines 95-123 in their order; the branches for \<^verbatim>\<open>nfev\<close>, \<^verbatim>\<open>njev\<close> and \<^verbatim>\<open>nhev\<close> are
  \<^verbatim>\<open>pass\<close>.
\<close>

definition record_metrics ::
  "('o, 'w) problem \<Rightarrow> string list \<Rightarrow> 'o val \<Rightarrow> opt_state \<Rightarrow> 'w \<Rightarrow> 'o result
     \<Rightarrow> exn + 'o result" where
  "record_metrics p mets x st w r =
     (case record_history_f p mets x w (record_history_x mets x r) of
        Inl e \<Rightarrow> Inl e
      | Inr r2 \<Rightarrow>
          (case record_nit mets r2 of
             Inl e \<Rightarrow> Inl e
           | Inr r3 \<Rightarrow> record_errors mets st r3))"

text \<open>
  Lines 85-88, the two early-exit tests of an iteration \<open>i > 0\<close>.  For a solver that is
  not custom the first test reads \<^verbatim>\<open>state.error\<close> and compares it with \<open>tol\<close>, and the
  second is cut short by \<^verbatim>\<open>custom_method and ...\<close>; for a custom solver the first is cut
  short and the second calls the solver's own predicate.
\<close>

definition should_break ::
  "('o, 'w) solver \<Rightarrow> 'o val \<Rightarrow> ('o, 'w) loop_vars \<Rightarrow> 'w \<Rightarrow> exn + (bool \<times> 'w)" where
  "should_break s tol v w =
     (if \<not> is_custom s then
        (case error (v_state v) of
           None \<Rightarrow> Inl AttributeError
         | Some err \<Rightarrow> (case stop_criterion err tol of Inl e \<Rightarrow> Inl e | Inr b \<Rightarrow> Inr (b, w)))
      else solver_stop_criterion s (v_sol v) (v_state v) w)"

definition stop_phase ::
  "('o, 'w) solver \<Rightarrow> 'o val \<Rightarrow> nat \<Rightarrow> ('o, 'w) loop_vars \<Rightarrow> 'w \<Rightarrow> exn + (bool \<times> ('o, 'w) loop_vars \<times> 'w)" where
  "stop_phase s tol i v w =
     (if i > 0 then
        (case should_break s tol v w of
           Inl e \<Rightarrow> Inl e
         | Inr (b, w1) \<Rightarrow> Inr (b, v\<lparr>v_trace := v_trace v @ [StopCheck i]\<rparr>, w1))
      else Inr (False, v, w))"

text \<open>Lines 89-123: the step and the bookkeeping of one iteration.\<close>

definition loop_body ::
  "('o, 'w) problem \<Rightarrow> ('o, 'w) solver \<Rightarrow> 'o kwargs \<Rightarrow> string list \<Rightarrow> nat \<Rightarrow> ('o, 'w) loop_vars \<Rightarrow> 'w
     \<Rightarrow> exn + (('o, 'w) loop_vars \<times> 'w)" where
  "loop_body p s kw mets i v w =
     (case (if is_custom s then plain_update s kw (v_sol v) (v_state v) w
            else jitted_update s kw (v_sol v) (v_state v) w) of
        Inl e \<Rightarrow> Inl e
      | Inr ((x, st), w1) \<Rightarrow>
          (case record_metrics p mets x st w1 (v_result v) of
             Inl e \<Rightarrow> Inl e
           | Inr r \<Rightarrow>
               Inr (\<lparr>v_sol = x, v_state = st, v_x_prev = v_sol v, v_result = r,
                     v_trace = v_trace v @ [UpdateStep i x w1]\<rparr>, w1)))"

text \<open>
  Line 83, \<^verbatim>\<open>for i in range(solver.maxiter)\<close>: the loop over the list of indices, left
  early by \<^verbatim>\<open>break\<close>.
\<close>

fun solver_loop ::
  "('o, 'w) problem \<Rightarrow> ('o, 'w) solver \<Rightarrow> 'o kwargs \<Rightarrow> string list \<Rightarrow> 'o val \<Rightarrow> nat list
     \<Rightarrow> ('o, 'w) loop_vars \<Rightarrow> 'w \<Rightarrow> exn + (('o, 'w) loop_vars \<times> 'w)" where
  "solver_loop p s kw mets tol [] v w = Inr (v, w)"
| "solver_loop p s kw mets tol (i # is) v w =
     (case stop_phase s tol i v w of
        Inl e \<Rightarrow> Inl e
      | Inr (b, v1, w1) \<Rightarrow>
          if b then Inr (v1, w1)
          else (case loop_body p s kw mets i v1 w1 of
                  Inl e \<Rightarrow> Inl e
                | Inr (v2, w2) \<Rightarrow> solver_loop p s kw mets tol is v2 w2))"

text \<open>
  \<^verbatim>\<open>__run_solver\<close> up to its \<^verbatim>\<open>return\<close>, with the loop variables and the ghost trace still
  in hand.  \<^verbatim>\<open>range(n)\<close> is empty for \<open>n \<le> 0\<close>.  \<^verbatim>\<open>print(tol)\<close> writes to standard
  output and is left out.
\<close>

definition run_solver_vars ::
  "('o, 'w) lib \<Rightarrow> ('o, 'w) problem \<Rightarrow> ('o, 'w) solver \<Rightarrow> 'o val \<Rightarrow> string list \<Rightarrow> 'o kwargs \<Rightarrow> 'w
     \<Rightarrow> exn + (('o, 'w) loop_vars \<times> 'w)" where
  "run_solver_vars L p s x0 mets kw w =
     (let custom_method = is_custom s;
          (start_time, w1) = time_time L w
      in case init_state s x0 kw w1 of
           Inl e \<Rightarrow> Inl e
         | Inr (st, w2) \<Rightarrow>
             (let x = (if custom_method \<and> x0 = VNone then default_x_init s else x0);
                  tol = resolve_tol kw
              in case solver_loop p s kw mets tol [0 ..< nat (maxiter s)]
                        \<lparr>v_sol = x, v_state = st, v_x_prev = x, v_result = Map.empty,
                         v_trace = []\<rparr> w2 of
                   Inl e \<Rightarrow> Inl e
                 | Inr (v, w3) \<Rightarrow>
                     (let (end_time, w4) = time_time L w3;
                          duration = end_time - start_time
                      in Inr (if ''time'' \<in> set mets
                              then v\<lparr>v_result := (v_result v)(''time'' \<mapsto> [VFloat duration])\<rparr>
                              else v, w4))))"

definition run_solver ::
  "('o, 'w) lib \<Rightarrow> ('o, 'w) problem \<Rightarrow> ('o, 'w) solver \<Rightarrow> 'o val \<Rightarrow> string list \<Rightarrow> 'o kwargs \<Rightarrow> 'w
     \<Rightarrow> exn + ('o result \<times> 'w)" where
  "run_solver L p s x0 mets kw w =
     (case run_solver_vars L p s x0 mets kw w of
        Inl e \<Rightarrow> Inl e
      | Inr (v, w1) \<Rightarrow> Inr (v_result v, w1))"

section \<open>The benchmark: \<^verbatim>\<open>Benchmark.__init__\<close> and \<^verbatim>\<open>Benchmark.run\<close>\<close>

text \<open>
  A method configuration is a Python dict that \<^verbatim>\<open>run\<close> changes in place, and the caller
  keeps a reference to it.  The dicts live in a heap from addresses to keyword maps;
  an item of \<^verbatim>\<open>self.methods\<close> lists its (name, address of the parameter dict) pairs in
  the order of \<^verbatim>\<open>item.items()\<close>.  Two entries may share an address.
\<close>

type_synonym 'o heap = "nat \<Rightarrow> 'o kwargs"

record ('o, 'w) benchmark =
  problem :: "('o, 'w) problem"
  methods :: "(string \<times> nat) list list"
  available_built_in_methods :: "string list"
  metrics :: "string list"

text \<open>
  The BenchmarkResult.  The dict \<^verbatim>\<open>data\<close> of \<^verbatim>\<open>run\<close> has the one key \<^verbatim>\<open>self.problem\<close>;
  \<open>res_data\<close> is its value \<^verbatim>\<open>data[self.problem]\<close>, from method names to series.
\<close>

record ('o, 'w) benchmark_result =
  res_problem :: "('o, 'w) problem"
  res_methods :: "string list"
  res_metrics :: "string list"
  res_data :: "string \<rightharpoonup> 'o result"

text \<open>
  Modelled from the spec: \<^verbatim>\<open>check_metric\<close> of \<^verbatim>\<open>metrics.py\<close>, which is not among the
  sources.  The spec has it validate the requested names against a fixed allow-list,
  rejecting any name outside it and accepting all names in it; the allow-list itself
  is the field \<open>metrics_available\<close>.
\<close>

definition check_metric :: "('o, 'w) lib \<Rightarrow> string list \<Rightarrow> bool" where
  "check_metric L names = list_all (\<lambda>n. n \<in> set (metrics_available L)) names"

text \<open>Lines 29-46.  \<^verbatim>\<open>exit(1)\<close> raises SystemExit with code 1.\<close>

definition Benchmark_init ::
  "('o, 'w) lib \<Rightarrow> ('o, 'w) problem \<Rightarrow> (string \<times> nat) list list \<Rightarrow> string list \<Rightarrow> exn + ('o, 'w) benchmark" where
  "Benchmark_init L p ms mets =
     (let methods_names = concat (map (map fst) ms)
      in if \<not> methods_check_method L methods_names then Inl (SystemExit 1)
         else if \<not> check_metric L mets then Inl (SystemExit 1)
         else Inr \<lparr>problem = p, methods = ms,
                   available_built_in_methods = methods_available_built_in_methods L,
                   metrics = mets\<rparr>)"

text \<open>
  The local variables of \<^verbatim>\<open>run\<close>: \<^verbatim>\<open>res.methods\<close>, \<^verbatim>\<open>data[self.problem]\<close>, the heap of
  parameter dicts and the world.
\<close>

record ('o, 'w) run_state =
  rs_methods :: "string list"
  rs_data :: "string \<rightharpoonup> 'o result"
  rs_heap :: "'o heap"
  rs_world :: 'w

text \<open>
  The call \<^verbatim>\<open>self.__run_solver(solver=..., x_init=..., metrics=..., **params)\<close>: a key of
  \<^verbatim>\<open>params\<close> that names a parameter of \<^verbatim>\<open>__run_solver\<close> is a TypeError (multiple values
  for the argument); all other keys arrive as \<^verbatim>\<open>kwargs\<close>.
\<close>

definition keyword_clash :: "'o kwargs \<Rightarrow> bool" where
  "keyword_clash kw \<longleftrightarrow>
     kw ''self'' \<noteq> None \<or> kw ''solver'' \<noteq> None \<or> kw ''x_init'' \<noteq> None \<or> kw ''metrics'' \<noteq> None"

definition call_run_solver ::
  "('o, 'w) lib \<Rightarrow> ('o, 'w) problem \<Rightarrow> ('o, 'w) solver \<Rightarrow> 'o val \<Rightarrow> string list \<Rightarrow> 'o kwargs \<Rightarrow> 'w
     \<Rightarrow> exn + ('o result \<times> 'w)" where
  "call_run_solver L p s x0 mets kw w =
     (if keyword_clash kw then Inl TypeError else run_solver L p s x0 mets kw w)"

text \<open>
  Lines 138-154, the body of the inner loop for one \<^verbatim>\<open>method, params\<close> pair.  An object
  built by \<^verbatim>\<open>jaxopt.GradientDescent\<close> is no CustomOptimizer, so its run takes the
  built-in path.  A name without the prefix is run only when a user method is given.
\<close>

definition run_method ::
  "('o, 'w) lib \<Rightarrow> ('o, 'w) benchmark \<Rightarrow> ('o, 'w) solver option \<Rightarrow> string \<times> nat \<Rightarrow> ('o, 'w) run_state
     \<Rightarrow> exn + ('o, 'w) run_state" where
  "run_method L b user_method ma rs =
     (case ma of (method, a) \<Rightarrow>
        if prefix ''GRADIENT_DESCENT'' method then
          (let names = rs_methods rs @ [method];
               params = rs_heap rs a;
               (x0, params1) = (case params ''x_init'' of
                                  None \<Rightarrow> (VNone, params)
                                | Some x \<Rightarrow> (x, params(''x_init'' := None)));
               heap1 = (rs_heap rs)(a := params1)
           in case GradientDescent L (problem b) params1 of
                Inl e \<Rightarrow> Inl e
              | Inr s \<Rightarrow>
                  (case call_run_solver L (problem b) (s\<lparr>is_custom := False\<rparr>) x0 (metrics b)
                          params1 (rs_world rs) of
                     Inl e \<Rightarrow> Inl e
                   | Inr (sub, w1) \<Rightarrow>
                       Inr \<lparr>rs_methods = names, rs_data = (rs_data rs)(method \<mapsto> sub),
                            rs_heap = heap1, rs_world = w1\<rparr>))
        else
          (case user_method of
             None \<Rightarrow> Inr rs
           | Some um \<Rightarrow>
               (let names = rs_methods rs @ [method];
                    params = rs_heap rs a
                in case (case params ''x_init'' of
                           None \<Rightarrow> Inr (VNone, params)
                         | Some x \<Rightarrow>
                             (case jnp_array L x of
                                Inl e \<Rightarrow> Inl e
                              | Inr y \<Rightarrow> Inr (y, params(''x_init'' := None)))) of
                     Inl e \<Rightarrow> Inl e
                   | Inr (x0, params1) \<Rightarrow>
                       (case call_run_solver L (problem b) um x0 (metrics b) params1
                               (rs_world rs) of
                          Inl e \<Rightarrow> Inl e
                        | Inr (sub, w1) \<Rightarrow>
                            Inr \<lparr>rs_methods = names, rs_data = (rs_data rs)(method \<mapsto> sub),
                                 rs_heap = (rs_heap rs)(a := params1), rs_world = w1\<rparr>))))"

text \<open>Line 136, \<^verbatim>\<open>for method, params in item.items()\<close>; an exception leaves the loop.\<close>

fun run_item ::
  "('o, 'w) lib \<Rightarrow> ('o, 'w) benchmark \<Rightarrow> ('o, 'w) solver option \<Rightarrow> (string \<times> nat) list
     \<Rightarrow> ('o, 'w) run_state \<Rightarrow> exn + ('o, 'w) run_state" where
  "run_item L b user_method [] rs = Inr rs"
| "run_item L b user_method (ma # rest) rs =
     (case run_method L b user_method ma rs of
        Inl e \<Rightarrow> Inl e
      | Inr rs1 \<Rightarrow> run_item L b user_method rest rs1)"

text \<open>Line 135, \<^verbatim>\<open>for item in self.methods\<close>.\<close>

fun run_items ::
  "('o, 'w) lib \<Rightarrow> ('o, 'w) benchmark \<Rightarrow> ('o, 'w) solver option \<Rightarrow> (string \<times> nat) list list
     \<Rightarrow> ('o, 'w) run_state \<Rightarrow> exn + ('o, 'w) run_state" where
  "run_items L b user_method [] rs = Inr rs"
| "run_items L b user_method (item # items) rs =
     (case run_item L b user_method item rs of
        Inl e \<Rightarrow> Inl e
      | Inr rs1 \<Rightarrow> run_items L b user_method items rs1)"

text \<open>
  Lines 130-156.  \<^verbatim>\<open>run\<close> returns the BenchmarkResult; the heap and the world it leaves
  behind are returned with it.
\<close>

definition initial_run_state :: "'o heap \<Rightarrow> 'w \<Rightarrow> ('o, 'w) run_state" where
  "initial_run_state h w = \<lparr>rs_methods = [], rs_data = Map.empty, rs_heap = h, rs_world = w\<rparr>"

definition run ::
  "('o, 'w) lib \<Rightarrow> ('o, 'w) benchmark \<Rightarrow> ('o, 'w) solver option \<Rightarrow> 'o heap \<Rightarrow> 'w
     \<Rightarrow> exn + (('o, 'w) benchmark_result \<times> 'o heap \<times> 'w)" where
  "run L b user_method h w =
     (case run_items L b user_method (methods b) (initial_run_state h w) of
        Inl e \<Rightarrow> Inl e
      | Inr rs \<Rightarrow>
          Inr (\<lparr>res_problem = problem b, res_methods = rs_methods rs, res_metrics = metrics b,
                res_data = rs_data rs\<rparr>, rs_heap rs, rs_world rs))"

section \<open>The plotter: the traces of \<^verbatim>\<open>Plotter.plotly_figure\<close>\<close>

text \<open>
  From \<^verbatim>\<open>benchmarx/plotter.py\<close>, lines 71-115: the traces that the two nested loops add
  to the figure, in the order of \<^verbatim>\<open>fig.add_trace\<close>.  A dataframe is given by its
  columns: the method name and the iteration index of every row, and the numeric
  columns by name; reading a numeric column that is not there is a KeyError.
\<close>

record dataframe =
  df_Problem :: "string list"
  df_Method :: "string list"
  df_Iteration :: "int list"
  df_columns :: "string \<rightharpoonup> real list"

record dropdown_option =
  opt_label :: string
  opt_value :: string

record marker =
  symbol :: string
  color :: string

text \<open>A \<^verbatim>\<open>go.Scatter\<close> with the arguments the source passes; \<open>None\<close> is an argument not given.\<close>

record trace =
  t_name :: string
  t_x :: "int list"
  t_y :: "real list"
  t_mode :: string
  t_marker :: "marker option"
  t_line_width :: "int option"
  t_showlegend :: "bool option"
  t_fillcolor :: "string option"
  t_fill :: "string option"
  t_hovertext :: string
  t_visible :: bool

definition markers :: "string list" where
  "markers = [''circle'', ''square'', ''diamond'', ''cross'', ''x'', ''triangle-up'',
     ''triangle-down'', ''triangle-left'', ''triangle-right'', ''triangle-ne'', ''triangle-se'',
     ''triangle-sw'', ''triangle-nw'']"

definition colors_rgba :: "string list" where
  "colors_rgba = [''rgba(31, 119, 180,  1)'', ''rgba(255, 127, 14,  1)'',
     ''rgba(44, 160, 44,   1)'', ''rgba(214, 39, 40,   1)'', ''rgba(148, 103, 189, 1)'',
     ''rgba(140, 86, 75,   1)'', ''rgba(227, 119, 194, 1)'', ''rgba(127, 127, 127, 1)'',
     ''rgba(188, 189, 34,  1)'', ''rgba(23, 190, 207,  1)'']"

definition colors_rgba_faint :: "string list" where
  "colors_rgba_faint = [''rgba(31, 119, 180,  0.3)'', ''rgba(255, 127, 14,  0.3)'',
     ''rgba(44, 160, 44,   0.3)'', ''rgba(214, 39, 40,   0.3)'', ''rgba(148, 103, 189, 0.3)'',
     ''rgba(140, 86, 75,   0.3)'', ''rgba(227, 119, 194, 0.3)'', ''rgba(127, 127, 127, 0.3)'',
     ''rgba(188, 189, 34,  0.3)'', ''rgba(23, 190, 207,  0.3)'']"

text \<open>\<^verbatim>\<open>Series.unique()\<close>: the distinct values in the order of their first appearance.\<close>

definition unique :: "'a list \<Rightarrow> 'a list" where
  "unique xs = rev (remdups (rev xs))"

text \<open>Boolean-mask selection of rows, \<^verbatim>\<open>dataframe[dataframe["Method"] == method]\<close>.\<close>

definition select_rows :: "bool list \<Rightarrow> 'a list \<Rightarrow> 'a list" where
  "select_rows keep xs = map snd (filter fst (zip keep xs))"

definition method_rows :: "dataframe \<Rightarrow> string \<Rightarrow> dataframe" where
  "method_rows df method =
     (let keep = map (\<lambda>m. m = method) (df_Method df)
      in \<lparr>df_Problem = select_rows keep (df_Problem df),
          df_Method = select_rows keep (df_Method df),
          df_Iteration = select_rows keep (df_Iteration df),
          df_columns = (\<lambda>c. map_option (select_rows keep) (df_columns df c))\<rparr>)"

definition get_column :: "dataframe \<Rightarrow> string \<Rightarrow> exn + real list" where
  "get_column df c = (case df_columns df c of None \<Rightarrow> Inl KeyError | Some xs \<Rightarrow> Inr xs)"

text \<open>
  Lines 80-115, the body of the inner loop: the mean trace, and the two band traces
  unless every entry of the standard-deviation column is zero.  All three carry
  \<^verbatim>\<open>visible=option["value"] == dropdown_options[0]["value"]\<close>.
\<close>

definition option_traces ::
  "dataframe \<Rightarrow> string \<Rightarrow> marker \<Rightarrow> string \<Rightarrow> dropdown_option list \<Rightarrow> dropdown_option
     \<Rightarrow> exn + trace list" where
  "option_traces method_df method mk fillcolor dropdown_options option =
     (case get_column method_df (opt_value option @ ''_mean'') of
        Inl e \<Rightarrow> Inl e
      | Inr mean \<Rightarrow>
          (case dropdown_options of
             [] \<Rightarrow> Inl IndexError
           | first # others \<Rightarrow>
               (let vis = (opt_value option = opt_value first);
                    trace_mean =
                      \<lparr>t_name = method, t_x = df_Iteration method_df, t_y = mean,
                       t_mode = ''lines+markers'', t_marker = Some mk, t_line_width = None,
                       t_showlegend = None, t_fillcolor = None, t_fill = None,
                       t_hovertext = method @ '' - '' @ opt_label option, t_visible = vis\<rparr>
                in case get_column method_df (opt_value option @ ''_std'') of
                     Inl e \<Rightarrow> Inl e
                   | Inr std \<Rightarrow>
                       if \<not> list_all (\<lambda>v. v = 0) std then
                         Inr [trace_mean,
                              \<lparr>t_name = ''mean + std'', t_x = df_Iteration method_df,
                               t_y = map (\<lambda>(a, b). a + b) (zip mean std), t_mode = ''lines'',
                               t_marker = None, t_line_width = Some 0,
                               t_showlegend = Some False, t_fillcolor = None, t_fill = None,
                               t_hovertext = method @ '' - '' @ opt_label option @ ''_upper'',
                               t_visible = vis\<rparr>,
                              \<lparr>t_name = ''mean - std'', t_x = df_Iteration method_df,
                               t_y = map (\<lambda>(a, b). a - b) (zip mean std), t_mode = ''lines'',
                               t_marker = None, t_line_width = Some 0,
                               t_showlegend = Some False, t_fillcolor = Some fillcolor,
                               t_fill = Some ''tonexty'',
                               t_hovertext = method @ '' - '' @ opt_label option @ ''_lower'',
                               t_visible = vis\<rparr>]
                       else Inr [trace_mean])))"

text \<open>Line 79, \<^verbatim>\<open>for option in dropdown_options\<close>, adding to the figure's trace list.\<close>

fun options_loop ::
  "dataframe \<Rightarrow> string \<Rightarrow> marker \<Rightarrow> string \<Rightarrow> dropdown_option list \<Rightarrow> dropdown_option list
     \<Rightarrow> trace list \<Rightarrow> exn + trace list" where
  "options_loop method_df method mk fillcolor dropdown_options [] fig = Inr fig"
| "options_loop method_df method mk fillcolor dropdown_options (option # rest) fig =
     (case option_traces method_df method mk fillcolor dropdown_options option of
        Inl e \<Rightarrow> Inl e
      | Inr ts \<Rightarrow> options_loop method_df method mk fillcolor dropdown_options rest (fig @ ts))"

text \<open>Lines 75-78: the rows, the marker and the fill colour of one method.\<close>

definition method_marker :: "nat \<Rightarrow> marker" where
  "method_marker i_method =
     \<lparr>symbol = markers ! (i_method mod length markers),
      color = colors_rgba ! (i_method mod length colors_rgba)\<rparr>"

definition method_fillcolor :: "nat \<Rightarrow> string" where
  "method_fillcolor i_method = colors_rgba_faint ! (i_method mod length colors_rgba_faint)"

text \<open>Line 74, \<^verbatim>\<open>for i_method, method in enumerate(dataframe["Method"].unique())\<close>.\<close>

fun methods_loop ::
  "dataframe \<Rightarrow> dropdown_option list \<Rightarrow> (nat \<times> string) list \<Rightarrow> trace list \<Rightarrow> exn + trace list" where
  "methods_loop df dropdown_options [] fig = Inr fig"
| "methods_loop df dropdown_options ((i_method, method) # rest) fig =
     (case options_loop (method_rows df method) method (method_marker i_method)
             (method_fillcolor i_method) dropdown_options dropdown_options fig of
        Inl e \<Rightarrow> Inl e
      | Inr fig1 \<Rightarrow> methods_loop df dropdown_options rest fig1)"

definition plotly_figure_data :: "dataframe \<Rightarrow> dropdown_option list \<Rightarrow> exn + trace list" where
  "plotly_figure_data df dropdown_options =
     methods_loop df dropdown_options (enumerate 0 (unique (df_Method df))) []"

section \<open>Reading the trace; objects for concrete runs\<close>

text \<open>
  The update steps of a trace in their order, each with the solution it returned and the
  world it left behind; the solutions alone; the iterations that made the steps; and the
  iterations that consulted a stop condition.
\<close>

fun steps :: "('o, 'w) event list \<Rightarrow> ('o val \<times> 'w) list" where
  "steps [] = []"
| "steps (StopCheck i # es) = steps es"
| "steps (UpdateStep i x w # es) = (x, w) # steps es"

fun step_sols :: "('o, 'w) event list \<Rightarrow> 'o val list" where
  "step_sols [] = []"
| "step_sols (StopCheck i # es) = step_sols es"
| "step_sols (UpdateStep i x w # es) = x # step_sols es"

fun step_indices :: "('o, 'w) event list \<Rightarrow> nat list" where
  "step_indices [] = []"
| "step_indices (StopCheck i # es) = step_indices es"
| "step_indices (UpdateStep i x w # es) = i # step_indices es"

fun stop_indices :: "('o, 'w) event list \<Rightarrow> nat list" where
  "stop_indices [] = []"
| "stop_indices (StopCheck i # es) = i # stop_indices es"
| "stop_indices (UpdateStep i x w # es) = stop_indices es"

text \<open>
  A list of steps is a chain of update calls from the solution \<open>x\<close> and the state \<open>st\<close>
  when every step is what \<^verbatim>\<open>solver.update\<close> returned, called with the keyword arguments
  on the solution and the state of the step before it (on \<open>x\<close> and \<open>st\<close> for the first).
\<close>

inductive update_chain ::
  "('o, 'w) solver \<Rightarrow> 'o kwargs \<Rightarrow> 'o val \<Rightarrow> opt_state \<Rightarrow> ('o val \<times> 'w) list \<Rightarrow> bool" where
  chain_end: "update_chain s kw x st []"
| chain_step: "update s x st kw w1 = Inr ((x', st'), w2) \<Longrightarrow> update_chain s kw x' st' rest
     \<Longrightarrow> update_chain s kw x st ((x', w2) # rest)"

text \<open>A series of the result dict, empty where the key is absent.\<close>

definition series :: "'o result \<Rightarrow> string \<Rightarrow> 'o val list" where
  "series r k = (case r k of None \<Rightarrow> [] | Some xs \<Rightarrow> xs)"

text \<open>
  The loop invariant that ties the three per-step series to the steps \<open>sts\<close> made so
  far.
\<close>

definition metrics_inv ::
  "('o, 'w) problem \<Rightarrow> string list \<Rightarrow> ('o val \<times> 'w) list \<Rightarrow> 'o result \<Rightarrow> bool" where
  "metrics_inv p mets sts r \<longleftrightarrow>
     (''history_x'' \<in> set mets \<longrightarrow>
        r ''history_x'' = (if sts = [] then None else Some (map fst sts))) \<and>
     (''history_f'' \<in> set mets \<longrightarrow>
        (if sts = [] then r ''history_f'' = None
         else \<exists>ys. r ''history_f'' = Some ys
                \<and> map (\<lambda>xw. problem_f p (fst xw) (snd xw)) sts = map Inr ys)) \<and>
     (''nit'' \<in> set mets \<longrightarrow>
        r ''nit'' = (if sts = [] then None else Some [VInt (int (length sts))]))"

text \<open>
  Concrete objects, after \<^verbatim>\<open>test_local\<close> of \<^verbatim>\<open>benchmark.py\<close>: a quadratic objective on
  one coordinate, a built-in solver that halves the iterate and reports its size as
  the error, a custom optimizer whose stop predicate is always true, and a library
  whose clock counts its readings.
\<close>

definition quadratic_problem :: "(unit, nat) problem" where
  "quadratic_problem =
     \<lparr>problem_f = (\<lambda>x w. case x of VFloat a \<Rightarrow> Inr (VFloat (a * a)) | _ \<Rightarrow> Inl TypeError)\<rparr>"

definition halving_update ::
  "unit val \<Rightarrow> opt_state \<Rightarrow> unit kwargs \<Rightarrow> nat \<Rightarrow> exn + ((unit val \<times> opt_state) \<times> nat)" where
  "halving_update x st kw w =
     (case x of
        VFloat a \<Rightarrow>
          Inr ((VFloat (a / 2), st\<lparr>iter_num := iter_num st + 1, error := Some (a / 2)\<rparr>), w)
      | _ \<Rightarrow> Inl TypeError)"

definition halving_solver :: "int \<Rightarrow> (unit, nat) solver" where
  "halving_solver n =
     \<lparr>is_custom = False, maxiter = n, default_x_init = VNone,
      init_state = (\<lambda>x kw w. Inr (\<lparr>iter_num = 0, stepsize = 1 / 2, error = Some 1\<rparr>, w)),
      update = halving_update,
      solver_stop_criterion = (\<lambda>x st w. Inr (False, w))\<rparr>"

definition eager_custom_solver :: "int \<Rightarrow> (unit, nat) solver" where
  "eager_custom_solver n =
     \<lparr>is_custom = True, maxiter = n, default_x_init = VFloat 1,
      init_state = (\<lambda>x kw w. Inr (\<lparr>iter_num = 1, stepsize = 1 / 2, error = None\<rparr>, w)),
      update = (\<lambda>x st kw w. case x of
                                VFloat a \<Rightarrow>
                                  Inr ((VFloat (a / 2), st\<lparr>iter_num := iter_num st + 1\<rparr>), w)
                              | _ \<Rightarrow> Inl TypeError),
      solver_stop_criterion = (\<lambda>x st w. Inr (True, w))\<rparr>"

definition test_lib :: "(unit, nat) lib" where
  "test_lib =
     \<lparr>time_time = (\<lambda>w. (real w, Suc w)),
      GradientDescent = (\<lambda>p kw. case kw ''maxiter'' of
                                    None \<Rightarrow> Inr (halving_solver 500)
                                  | Some (VInt n) \<Rightarrow> Inr (halving_solver n)
                                  | Some _ \<Rightarrow> Inl TypeError),
      jnp_array = (\<lambda>x. case x of VNone \<Rightarrow> Inl TypeError | _ \<Rightarrow> Inr x),
      methods_check_method = (\<lambda>names. True),
      methods_available_built_in_methods = [''GRADIENT_DESCENT''],
      metrics_available = [''history_x'', ''history_f'', ''nit'', ''nfev'', ''njev'', ''nhev'',
                           ''errors'', ''time'']\<rparr>"

definition test_kwargs :: "unit kwargs" where
  "test_kwargs = [''tol'' \<mapsto> VFloat (1 / 100), ''maxiter'' \<mapsto> VInt 11,
                  ''stepsize'' \<mapsto> VFloat (1 / 100)]"

definition test_metrics :: "string list" where
  "test_metrics = [''nit'', ''history_x'', ''history_f'']"

text \<open>
  Whether \<^verbatim>\<open>run\<close> runs a configured method: its name has the built-in prefix, or a user
  method is given.
\<close>

definition is_run :: "('o, 'w) solver option \<Rightarrow> string \<times> nat \<Rightarrow> bool" where
  "is_run user_method ma \<longleftrightarrow> prefix ''GRADIENT_DESCENT'' (fst ma) \<or> user_method \<noteq> None"

text \<open>
  The configuration of \<^verbatim>\<open>test_local\<close> with three iterations, a method name without the
  built-in prefix, and a configuration that lacks \<^verbatim>\<open>x_init\<close>, on which the first update
  of the halving solver raises.
\<close>

definition test_heap :: "unit heap" where
  "test_heap a =
     (if a = 0 then [''x_init'' \<mapsto> VFloat 1, ''tol'' \<mapsto> VFloat (1 / 100), ''maxiter'' \<mapsto> VInt 3,
                     ''stepsize'' \<mapsto> VFloat (1 / 100)]
      else if a = 1 then [''x_init'' \<mapsto> VFloat 2, ''tol'' \<mapsto> VFloat (1 / 100),
                          ''maxiter'' \<mapsto> VInt 2]
      else if a = 2 then [''maxiter'' \<mapsto> VInt 2]
      else Map.empty)"

definition test_benchmark :: "(unit, nat) benchmark" where
  "test_benchmark =
     \<lparr>problem = quadratic_problem,
      methods = [[(''GRADIENT_DESCENT_const_step'', 0)], [(''NEWTON'', 3)],
                 [(''GRADIENT_DESCENT_adaptive_step'', 1)]],
      available_built_in_methods = [''GRADIENT_DESCENT''],
      metrics = test_metrics\<rparr>"

definition failing_benchmark :: "(unit, nat) benchmark" where
  "failing_benchmark =
     \<lparr>problem = quadratic_problem,
      methods = [[(''GRADIENT_DESCENT_const_step'', 0)], [(''GRADIENT_DESCENT_no_init'', 2)],
                 [(''GRADIENT_DESCENT_adaptive_step'', 1)]],
      available_built_in_methods = [''GRADIENT_DESCENT''],
      metrics = test_metrics\<rparr>"

definition later_methods_benchmark :: "(unit, nat) benchmark" where
  "later_methods_benchmark =
     \<lparr>problem = quadratic_problem,
      methods = [[(''GRADIENT_DESCENT_adaptive_step'', 1)]],
      available_built_in_methods = [''GRADIENT_DESCENT''],
      metrics = test_metrics\<rparr>"

text \<open>
  A world with a store of mutable objects: what the object at an address holds, and a
  clock that counts its readings.  \<open>deref\<close> is what a caller reads from a value: the
  value itself, or what the referenced object holds at that moment.
\<close>

record 'o store_world =
  objects :: "nat \<Rightarrow> 'o val"
  clock :: nat

definition deref :: "'o store_world \<Rightarrow> 'o val \<Rightarrow> 'o val" where
  "deref w x = (case x of VRef a \<Rightarrow> objects w a | _ \<Rightarrow> x)"

text \<open>What a step's solution held when the step had just been made.\<close>

definition read_at :: "'o val \<times> 'o store_world \<Rightarrow> 'o val" where
  "read_at xw = deref (snd xw) (fst xw)"

text \<open>
  A custom optimizer that works in place: its update adds 1 to the number held by the
  object it is given and returns that same object.  The objective squares the number it
  finds there.  The run starts on the object at address 0, which holds 0.
\<close>

definition inplace_update ::
  "unit val \<Rightarrow> opt_state \<Rightarrow> unit kwargs \<Rightarrow> unit store_world
     \<Rightarrow> exn + ((unit val \<times> opt_state) \<times> unit store_world)" where
  "inplace_update x st kw w =
     (case x of
        VRef a \<Rightarrow>
          (case objects w a of
             VFloat c \<Rightarrow>
               Inr ((VRef a, st\<lparr>iter_num := iter_num st + 1\<rparr>),
                    w\<lparr>objects := (objects w)(a := VFloat (c + 1))\<rparr>)
           | _ \<Rightarrow> Inl TypeError)
      | _ \<Rightarrow> Inl TypeError)"

definition inplace_solver :: "int \<Rightarrow> (unit, unit store_world) solver" where
  "inplace_solver n =
     \<lparr>is_custom = True, maxiter = n, default_x_init = VRef 0,
      init_state = (\<lambda>x kw w. Inr (\<lparr>iter_num = 1, stepsize = 1, error = None\<rparr>, w)),
      update = inplace_update,
      solver_stop_criterion = (\<lambda>x st w. Inr (False, w))\<rparr>"

definition store_problem :: "(unit, unit store_world) problem" where
  "store_problem =
     \<lparr>problem_f = (\<lambda>x w. case deref w x of
                             VFloat c \<Rightarrow> Inr (VFloat (c * c))
                           | _ \<Rightarrow> Inl TypeError)\<rparr>"

definition store_lib :: "(unit, unit store_world) lib" where
  "store_lib =
     \<lparr>time_time = (\<lambda>w. (real (clock w), w\<lparr>clock := Suc (clock w)\<rparr>)),
      GradientDescent = (\<lambda>p kw. Inl TypeError),
      jnp_array = (\<lambda>x. Inr x),
      methods_check_method = (\<lambda>names. True),
      methods_available_built_in_methods = [''GRADIENT_DESCENT''],
      metrics_available = [''history_x'', ''history_f'', ''nit'', ''nfev'', ''njev'', ''nhev'',
                           ''errors'', ''time'']\<rparr>"

definition store_world0 :: "unit store_world" where
  "store_world0 = \<lparr>objects = (\<lambda>a. if a = 0 then VFloat 0 else VNone), clock = 0\<rparr>"

text \<open>
  A dataframe of two methods with two rows each and the dropdown options for the metrics
  \<open>f\<close> and \<open>x\<close>; the standard deviation of \<open>f\<close> is zero for the first method only.
\<close>

definition test_dataframe :: dataframe where
  "test_dataframe =
     \<lparr>df_Problem = [''Quadratic'', ''Quadratic'', ''Quadratic'', ''Quadratic''],
      df_Method = [''GD'', ''GD'', ''CSGD'', ''CSGD''],
      df_Iteration = [0, 1, 0, 1],
      df_columns = [''f_mean'' \<mapsto> [4, 1, 4, 2], ''f_std'' \<mapsto> [0, 0, 1, 1 / 2],
                    ''x_mean'' \<mapsto> [2, 1, 2, 3 / 2], ''x_std'' \<mapsto> [0, 0, 0, 0]]\<rparr>"

definition test_options :: "dropdown_option list" where
  "test_options = [\<lparr>opt_label = ''f'', opt_value = ''f''\<rparr>, \<lparr>opt_label = ''x'', opt_value = ''x''\<rparr>]"

section \<open>Properties of the solver loop\<close>

lemma step_sols_append: "step_sols (es @ fs) = step_sols es @ step_sols fs"
  by (induction es rule: step_sols.induct) simp_all

lemma steps_append: "steps (es @ fs) = steps es @ steps fs"
  by (induction es rule: steps.induct) simp_all

lemma step_sols_steps: "step_sols es = map fst (steps es)"
  by (induction es rule: steps.induct) simp_all

lemma step_indices_append: "step_indices (es @ fs) = step_indices es @ step_indices fs"
  by (induction es rule: step_indices.induct) simp_all

lemma stop_indices_append: "stop_indices (es @ fs) = stop_indices es @ stop_indices fs"
  by (induction es rule: stop_indices.induct) simp_all

text \<open>The tolerance of the comparison does not depend on the keyword arguments.\<close>

lemma resolve_tol_default: "resolve_tol kw = VFloat (1 / 1000)"
  by (simp add: resolve_tol_def custom_optimizer_def)

lemma should_break_built_in:
  assumes "\<not> is_custom s" and "error (v_state v) = Some err"
  shows "should_break s (resolve_tol kw) v w = Inr (err < 1 / 1000, w)"
  using assms by (simp add: should_break_def resolve_tol_default)

lemma stop_phase_Inr:
  assumes "stop_phase s tol i v w = Inr (b, v1, w1)"
  shows "v1 = v\<lparr>v_trace := v_trace v @ (if 0 < i then [StopCheck i] else [])\<rparr>"
  using assms by (auto simp: stop_phase_def split: if_splits sum.splits prod.splits)

lemma stop_phase_break:
  assumes "stop_phase s tol i v w = Inr (True, v1, w1)"
  shows "0 < i"
  using assms by (auto simp: stop_phase_def split: if_splits)

text \<open>
  An iteration that gets through its body has called \<^verbatim>\<open>solver.update\<close> on the current
  solution and state, and goes on with what the call returned.
\<close>

lemma loop_body_update:
  "loop_body p s kw mets i v w =
     (case update s (v_sol v) (v_state v) kw w of
        Inl e \<Rightarrow> Inl e
      | Inr ((x, st), w1) \<Rightarrow>
          (case record_metrics p mets x st w1 (v_result v) of
             Inl e \<Rightarrow> Inl e
           | Inr r \<Rightarrow>
               Inr (\<lparr>v_sol = x, v_state = st, v_x_prev = v_sol v, v_result = r,
                     v_trace = v_trace v @ [UpdateStep i x w1]\<rparr>, w1)))"
  by (simp add: loop_body_def plain_update_def jitted_update_def)

lemma loop_body_Inr:
  assumes "loop_body p s kw mets i v w = Inr (v2, w2)"
  shows "update s (v_sol v) (v_state v) kw w = Inr ((v_sol v2, v_state v2), w2)"
    and "record_metrics p mets (v_sol v2) (v_state v2) w2 (v_result v) = Inr (v_result v2)"
    and "v_trace v2 = v_trace v @ [UpdateStep i (v_sol v2) w2]"
proof -
  note lb = assms [unfolded loop_body_update]
  from lb obtain x st w1 where
    u: "update s (v_sol v) (v_state v) kw w = Inr ((x, st), w1)"
    by (cases "update s (v_sol v) (v_state v) kw w") auto
  from lb u obtain r where
    r: "record_metrics p mets x st w1 (v_result v) = Inr r"
    by (cases "record_metrics p mets x st w1 (v_result v)") auto
  from lb u r have v2: "v2 = \<lparr>v_sol = x, v_state = st, v_x_prev = v_sol v, v_result = r,
      v_trace = v_trace v @ [UpdateStep i x w1]\<rparr>" and w2: "w2 = w1"
    by auto
  show "update s (v_sol v) (v_state v) kw w = Inr ((v_sol v2, v_state v2), w2)"
    using u by (simp add: v2 w2)
  show "record_metrics p mets (v_sol v2) (v_state v2) w2 (v_result v) = Inr (v_result v2)"
    using r by (simp add: v2 w2)
  show "v_trace v2 = v_trace v @ [UpdateStep i (v_sol v2) w2]"
    by (simp add: v2 w2)
qed

text \<open>
  Iteration 0 goes straight to the step: neither stop condition is called, whether or not
  the run goes on to return.
\<close>

lemma solver_loop_first_iteration:
  "solver_loop p s kw mets tol (0 # is) v w =
     (case loop_body p s kw mets 0 v w of
        Inl e \<Rightarrow> Inl e
      | Inr (v2, w2) \<Rightarrow> solver_loop p s kw mets tol is v2 w2)"
  by (simp add: stop_phase_def)

text \<open>
  What a run of the loop over the indices \<open>is\<close> adds to the trace: stop checks only at
  indices of \<open>is\<close> other than 0, update steps at an initial segment of \<open>is\<close>, and, when
  \<open>is\<close> starts with 0, an update step before anything else.
\<close>

lemma solver_loop_trace:
  "solver_loop p s kw mets tol is v w = Inr (v', w') \<Longrightarrow>
     \<exists>evs. v_trace v' = v_trace v @ evs
        \<and> set (stop_indices evs) \<subseteq> {i \<in> set is. 0 < i}
        \<and> length (step_sols evs) \<le> length is
        \<and> step_indices evs = take (length (step_sols evs)) is
        \<and> (\<forall>rest. is = 0 # rest \<longrightarrow> (\<exists>x w1 evs'. evs = UpdateStep 0 x w1 # evs'))"
proof (induction "is" arbitrary: v w)
  case Nil
  then show ?case by simp
next
  case (Cons i "is")
  from Cons.prems obtain b v1 w1 where sp: "stop_phase s tol i v w = Inr (b, v1, w1)"
    by (auto split: sum.splits)
  have v1: "v1 = v\<lparr>v_trace := v_trace v @ (if 0 < i then [StopCheck i] else [])\<rparr>"
    using stop_phase_Inr [OF sp] .
  show ?case
  proof (cases b)
    case True
    with Cons.prems sp have "v' = v1" by simp
    moreover from True sp have "0 < i"
      using stop_phase_break [of s tol i v w v1 w1] by simp
    ultimately show ?thesis using v1 by simp
  next
    case False
    with Cons.prems sp obtain v2 w2 where
      lb: "loop_body p s kw mets i v1 w1 = Inr (v2, w2)" and
      rec: "solver_loop p s kw mets tol is v2 w2 = Inr (v', w')"
      by (auto split: sum.splits)
    from Cons.IH [OF rec] obtain evs where evs:
      "v_trace v' = v_trace v2 @ evs"
      "set (stop_indices evs) \<subseteq> {i \<in> set is. 0 < i}"
      "length (step_sols evs) \<le> length is"
      "step_indices evs = take (length (step_sols evs)) is"
      by (elim exE conjE)
    let ?pre = "(if 0 < i then [StopCheck i] else []) @ [UpdateStep i (v_sol v2) w2]"
    have tr: "v_trace v' = v_trace v @ (?pre @ evs)"
      using evs(1) loop_body_Inr(3) [OF lb] v1 by auto
    have "set (stop_indices (?pre @ evs)) \<subseteq> {j \<in> set (i # is). 0 < j}"
      using evs(2) by (auto simp: stop_indices_append)
    moreover have "length (step_sols (?pre @ evs)) \<le> length (i # is)"
      using evs(3) by (simp add: step_sols_append)
    moreover have "step_indices (?pre @ evs) = take (length (step_sols (?pre @ evs))) (i # is)"
      using evs(4) by (simp add: step_sols_append step_indices_append)
    moreover have "\<forall>rest. i # is = 0 # rest \<longrightarrow>
        (\<exists>x w1 evs'. ?pre @ evs = UpdateStep 0 x w1 # evs')"
      by simp
    ultimately show ?thesis using tr by blast
  qed
qed

text \<open>
  The update steps that a run of the loop adds to the trace are a chain of update calls
  from the solution and the state the loop starts with; and when the indices start with
  0, the trace goes on with the step that \<^verbatim>\<open>solver.update\<close> makes on these.
\<close>

lemma solver_loop_chain:
  "solver_loop p s kw mets tol is v w = Inr (v', w') \<Longrightarrow>
     \<exists>evs. v_trace v' = v_trace v @ evs
        \<and> update_chain s kw (v_sol v) (v_state v) (steps evs)
        \<and> (\<forall>rest. is = 0 # rest \<longrightarrow>
             (\<exists>x' st' w1 evs'. update s (v_sol v) (v_state v) kw w = Inr ((x', st'), w1)
                \<and> evs = UpdateStep 0 x' w1 # evs'))"
proof (induction "is" arbitrary: v w)
  case Nil
  then show ?case by (simp add: chain_end)
next
  case (Cons i "is")
  from Cons.prems obtain b v1 w1 where sp: "stop_phase s tol i v w = Inr (b, v1, w1)"
    by (auto split: sum.splits)
  have v1: "v1 = v\<lparr>v_trace := v_trace v @ (if 0 < i then [StopCheck i] else [])\<rparr>"
    using stop_phase_Inr [OF sp] .
  show ?case
  proof (cases b)
    case True
    with Cons.prems sp have "v' = v1" by simp
    moreover from True sp have "0 < i"
      using stop_phase_break [of s tol i v w v1 w1] by simp
    ultimately show ?thesis using v1 by (simp add: chain_end)
  next
    case False
    with Cons.prems sp obtain v2 w2 where
      lb: "loop_body p s kw mets i v1 w1 = Inr (v2, w2)" and
      rec: "solver_loop p s kw mets tol is v2 w2 = Inr (v', w')"
      by (auto split: sum.splits)
    from Cons.IH [OF rec] obtain evs where evs:
      "v_trace v' = v_trace v2 @ evs"
      "update_chain s kw (v_sol v2) (v_state v2) (steps evs)"
      by (elim exE conjE)
    have upd: "update s (v_sol v) (v_state v) kw w1 = Inr ((v_sol v2, v_state v2), w2)"
      using loop_body_Inr(1) [OF lb] by (simp add: v1)
    let ?pre = "(if 0 < i then [StopCheck i] else []) @ [UpdateStep i (v_sol v2) w2]"
    have tr: "v_trace v' = v_trace v @ (?pre @ evs)"
      using evs(1) loop_body_Inr(3) [OF lb] v1 by auto
    have "update_chain s kw (v_sol v) (v_state v) ((v_sol v2, w2) # steps evs)"
      using upd evs(2) by (rule chain_step)
    then have ch: "update_chain s kw (v_sol v) (v_state v) (steps (?pre @ evs))"
      by (simp add: steps_append)
    have first: "\<exists>x' st' w1' evs'. update s (v_sol v) (v_state v) kw w = Inr ((x', st'), w1')
        \<and> ?pre @ evs = UpdateStep 0 x' w1' # evs'" if "i = 0"
    proof -
      from sp that have "w1 = w"
        by (simp add: stop_phase_def)
      with upd have "update s (v_sol v) (v_state v) kw w = Inr ((v_sol v2, v_state v2), w2)"
        by simp
      moreover from that have "?pre @ evs = UpdateStep 0 (v_sol v2) w2 # evs"
        by simp
      ultimately show ?thesis
        by (intro exI conjI)
    qed
    show ?thesis
    proof (intro exI [of _ "?pre @ evs"] conjI allI impI)
      show "v_trace v' = v_trace v @ ?pre @ evs" using tr by simp
      show "update_chain s kw (v_sol v) (v_state v) (steps (?pre @ evs))" by (rule ch)
      fix rest
      assume "i # is = 0 # rest"
      then have "i = 0" by simp
      from first [OF this]
      show "\<exists>x' st' w1' evs'. update s (v_sol v) (v_state v) kw w = Inr ((x', st'), w1')
        \<and> ?pre @ evs = UpdateStep 0 x' w1' # evs'" .
    qed
  qed
qed

subsection \<open>The series follow the steps\<close>

lemma append_metric_same: "append_metric k x r k = Some (series r k @ [x])"
  by (simp add: append_metric_def series_def split: option.splits)

lemma append_metric_other: "k' \<noteq> k \<Longrightarrow> append_metric k x r k' = r k'"
  by (simp add: append_metric_def split: option.splits)

lemma record_history_x_keys:
  "record_history_x mets x r k =
     (if k = ''history_x'' \<and> ''history_x'' \<in> set mets then Some (series r k @ [x]) else r k)"
  by (simp add: record_history_x_def append_metric_same append_metric_other)

lemma record_history_f_keys:
  "record_history_f p mets x w r = Inr r' \<Longrightarrow>
     (if k = ''history_f'' \<and> ''history_f'' \<in> set mets
      then \<exists>y. problem_f p x w = Inr y \<and> r' k = Some (series r k @ [y]) else r' k = r k)"
  by (auto simp: record_history_f_def append_metric_same append_metric_other
      split: if_splits sum.splits)

lemma record_nit_keys:
  "record_nit mets r = Inr r' \<Longrightarrow> k \<noteq> ''nit'' \<Longrightarrow> r' k = r k"
  by (auto simp: record_nit_def split: if_splits sum.splits option.splits)

lemma record_nit_count:
  "record_nit mets r = Inr r' \<Longrightarrow> ''nit'' \<in> set mets \<Longrightarrow>
   r ''nit'' = (if n = 0 then None else Some [VInt (int n)]) \<Longrightarrow>
   r' ''nit'' = Some [VInt (int (Suc n))]"
  by (auto simp: record_nit_def split: if_splits sum.splits option.splits)

lemma record_errors_keys:
  "record_errors mets st r = Inr r' \<Longrightarrow> k \<noteq> ''errors'' \<Longrightarrow> r' k = r k"
  by (auto simp: record_errors_def append_metric_other split: if_splits option.splits)

lemma record_metrics_inv:
  assumes "record_metrics p mets x st w r = Inr r'" and inv: "metrics_inv p mets sts r"
  shows "metrics_inv p mets (sts @ [(x, w)]) r'"
proof -
  from assms(1) obtain r2 r3 where
    f: "record_history_f p mets x w (record_history_x mets x r) = Inr r2" and
    n: "record_nit mets r2 = Inr r3" and
    e: "record_errors mets st r3 = Inr r'"
    by (auto simp: record_metrics_def split: sum.splits)
  have hx: "r' ''history_x'' = Some (map fst (sts @ [(x, w)]))" if m: "''history_x'' \<in> set mets"
  proof -
    have "r' ''history_x'' = r3 ''history_x''"
      using record_errors_keys [OF e] by simp
    also have "\<dots> = r2 ''history_x''"
      using record_nit_keys [OF n] by simp
    also have "\<dots> = record_history_x mets x r ''history_x''"
      using record_history_f_keys [OF f, of "''history_x''"] by simp
    also have "\<dots> = Some (map fst (sts @ [(x, w)]))"
      using inv m by (simp add: record_history_x_keys metrics_inv_def series_def)
    finally show ?thesis .
  qed
  have hf: "\<exists>ys. r' ''history_f'' = Some ys
      \<and> map (\<lambda>xw. problem_f p (fst xw) (snd xw)) (sts @ [(x, w)]) = map Inr ys"
    if m: "''history_f'' \<in> set mets"
  proof -
    have 1: "r' ''history_f'' = r2 ''history_f''"
      using record_errors_keys [OF e, of "''history_f''"]
        record_nit_keys [OF n, of "''history_f''"] by simp
    from record_history_f_keys [OF f, of "''history_f''"] m obtain y where
      y: "problem_f p x w = Inr y"
        "r2 ''history_f'' = Some (series (record_history_x mets x r) ''history_f'' @ [y])"
      by auto
    have 2: "series (record_history_x mets x r) ''history_f'' = series r ''history_f''"
      by (simp add: series_def record_history_x_keys)
    from inv m have "map (\<lambda>xw. problem_f p (fst xw) (snd xw)) sts
        = map Inr (series r ''history_f'')"
      by (auto simp: metrics_inv_def series_def split: if_splits)
    then show ?thesis using 1 y 2 by simp
  qed
  have nit: "r' ''nit'' = Some [VInt (int (length (sts @ [(x, w)])))]"
    if m: "''nit'' \<in> set mets"
  proof -
    have 1: "r' ''nit'' = r3 ''nit''"
      using record_errors_keys [OF e, of "''nit''"] by simp
    have "r2 ''nit'' = r ''nit''"
      using record_history_f_keys [OF f, of "''nit''"] by (simp add: record_history_x_keys)
    with inv m have "r2 ''nit'' = (if length sts = 0 then None else Some [VInt (int (length sts))])"
      by (simp add: metrics_inv_def)
    from record_nit_count [OF n m this] 1 show ?thesis by simp
  qed
  show ?thesis
    unfolding metrics_inv_def using hx hf nit by simp
qed

lemma loop_body_inv:
  assumes "loop_body p s kw mets i v w = Inr (v2, w2)"
    and "metrics_inv p mets (steps (v_trace v)) (v_result v)"
  shows "metrics_inv p mets (steps (v_trace v2)) (v_result v2)"
  using record_metrics_inv [OF loop_body_Inr(2) [OF assms(1)] assms(2)]
  by (simp add: loop_body_Inr(3) [OF assms(1)] steps_append)

lemma solver_loop_inv:
  "solver_loop p s kw mets tol is v w = Inr (v', w') \<Longrightarrow>
   metrics_inv p mets (steps (v_trace v)) (v_result v) \<Longrightarrow>
   metrics_inv p mets (steps (v_trace v')) (v_result v')"
proof (induction "is" arbitrary: v w)
  case Nil
  then show ?case by simp
next
  case (Cons i "is")
  from Cons.prems(1) obtain b v1 w1 where sp: "stop_phase s tol i v w = Inr (b, v1, w1)"
    by (auto split: sum.splits)
  have v1: "v1 = v\<lparr>v_trace := v_trace v @ (if 0 < i then [StopCheck i] else [])\<rparr>"
    using stop_phase_Inr [OF sp] .
  have inv1: "metrics_inv p mets (steps (v_trace v1)) (v_result v1)"
    using Cons.prems(2) by (simp add: v1 steps_append)
  show ?case
  proof (cases b)
    case True
    with Cons.prems(1) sp have "v' = v1" by simp
    then show ?thesis using inv1 by simp
  next
    case False
    with Cons.prems(1) sp obtain v2 w2 where
      lb: "loop_body p s kw mets i v1 w1 = Inr (v2, w2)" and
      rec: "solver_loop p s kw mets tol is v2 w2 = Inr (v', w')"
      by (auto split: sum.splits)
    show ?thesis
      using Cons.IH [OF rec loop_body_inv [OF lb inv1]] .
  qed
qed

subsection \<open>The whole of \<^verbatim>\<open>__run_solver\<close>\<close>

lemma run_solver_vars_loop:
  assumes "run_solver_vars L p s x0 mets kw w = Inr (v, w')"
  shows "\<exists>start w1 x st w2 v0 w3.
           time_time L w = (start, w1)
         \<and> init_state s x0 kw w1 = Inr (st, w2)
         \<and> x = (if is_custom s \<and> x0 = VNone then default_x_init s else x0)
         \<and> solver_loop p s kw mets (resolve_tol kw) [0 ..< nat (maxiter s)]
             \<lparr>v_sol = x, v_state = st, v_x_prev = x, v_result = Map.empty, v_trace = []\<rparr> w2
             = Inr (v0, w3)
         \<and> v_trace v = v_trace v0
         \<and> (\<forall>k. k \<noteq> ''time'' \<longrightarrow> v_result v k = v_result v0 k)"
proof -
  obtain start_time w1 where t0: "time_time L w = (start_time, w1)"
    by (cases "time_time L w")
  from assms t0 obtain st w2 where ini: "init_state s x0 kw w1 = Inr (st, w2)"
    by (auto simp: run_solver_vars_def split: sum.splits)
  define x where "x = (if is_custom s \<and> x0 = VNone then default_x_init s else x0)"
  from assms t0 ini obtain v0 w3 where
    loop: "solver_loop p s kw mets (resolve_tol kw) [0 ..< nat (maxiter s)]
             \<lparr>v_sol = x, v_state = st, v_x_prev = x, v_result = Map.empty, v_trace = []\<rparr> w2
             = Inr (v0, w3)"
    by (auto simp: run_solver_vars_def x_def Let_def split: sum.splits)
  obtain end_time w4 where t1: "time_time L w3 = (end_time, w4)"
    by (cases "time_time L w3")
  from assms t0 ini loop t1 have
    "v = (if ''time'' \<in> set mets
          then v0\<lparr>v_result := (v_result v0)(''time'' \<mapsto> [VFloat (end_time - start_time)])\<rparr>
          else v0)"
    by (simp add: run_solver_vars_def x_def Let_def)
  then have tr: "v_trace v = v_trace v0"
    and res: "\<forall>k. k \<noteq> ''time'' \<longrightarrow> v_result v k = v_result v0 k"
    by simp_all
  show ?thesis
    by (intro exI conjI) (rule t0 ini x_def loop tr res)+
qed

lemma run_solver_vars_trace:
  assumes "run_solver_vars L p s x0 mets kw w = Inr (v, w')"
  shows "set (stop_indices (v_trace v)) \<subseteq> {i. 0 < i}"
    and "length (step_sols (v_trace v)) \<le> nat (maxiter s)"
    and "step_indices (v_trace v) = [0 ..< length (step_sols (v_trace v))]"
    and "0 < maxiter s \<Longrightarrow> \<exists>x w1 evs. v_trace v = UpdateStep 0 x w1 # evs"
    and "maxiter s \<le> 0 \<Longrightarrow> v_trace v = [] \<and> (\<forall>k. k \<noteq> ''time'' \<longrightarrow> v_result v k = None)"
proof -
  from run_solver_vars_loop [OF assms] obtain x st w2 v0 w3 where
    loop: "solver_loop p s kw mets (resolve_tol kw) [0 ..< nat (maxiter s)]
             \<lparr>v_sol = x, v_state = st, v_x_prev = x, v_result = Map.empty, v_trace = []\<rparr> w2
             = Inr (v0, w3)" and
    tr: "v_trace v = v_trace v0" and
    res: "\<forall>k. k \<noteq> ''time'' \<longrightarrow> v_result v k = v_result v0 k"
    by (elim exE conjE)
  let ?v = "\<lparr>v_sol = x, v_state = st, v_x_prev = x, v_result = Map.empty, v_trace = []\<rparr>"
  from solver_loop_trace [OF loop] obtain evs where evs0:
    "v_trace v0 = v_trace ?v @ evs"
    "set (stop_indices evs) \<subseteq> {i \<in> set [0 ..< nat (maxiter s)]. 0 < i}"
    "length (step_sols evs) \<le> length [0 ..< nat (maxiter s)]"
    "step_indices evs = take (length (step_sols evs)) [0 ..< nat (maxiter s)]"
    "\<forall>rest. [0 ..< nat (maxiter s)] = 0 # rest \<longrightarrow>
       (\<exists>x w1 evs'. evs = UpdateStep 0 x w1 # evs')"
    by (elim exE conjE)
  from evs0(1) have "v_trace v0 = evs" by simp
  note evs = this evs0(2-5)
  show "set (stop_indices (v_trace v)) \<subseteq> {i. 0 < i}"
    using evs(1,2) tr by (simp add: subset_iff)
  show "length (step_sols (v_trace v)) \<le> nat (maxiter s)"
    using evs(1,3) tr by simp
  show "step_indices (v_trace v) = [0 ..< length (step_sols (v_trace v))]"
    using evs(1,3,4) tr by (simp add: take_upt)
  show "\<exists>x w1 evs. v_trace v = UpdateStep 0 x w1 # evs" if "0 < maxiter s"
  proof -
    from that have "0 < nat (maxiter s)" by simp
    then have "[0 ..< nat (maxiter s)] = 0 # [Suc 0 ..< nat (maxiter s)]"
      by (rule upt_conv_Cons)
    with evs(5) obtain y wy evs' where "evs = UpdateStep 0 y wy # evs'"
      by (elim allE impE) auto
    with evs(1) tr show ?thesis by simp
  qed
  show "v_trace v = [] \<and> (\<forall>k. k \<noteq> ''time'' \<longrightarrow> v_result v k = None)" if "maxiter s \<le> 0"
  proof -
    from that have "nat (maxiter s) = 0" by simp
    with loop have "v0 = ?v"
      by simp
    then have "v_trace v0 = []" and "\<forall>k. v_result v0 k = None"
      by simp_all
    with tr res show ?thesis by simp
  qed
qed

text \<open>
  The steps of a returning run are a chain of update calls from the initial solution and
  the state that \<^verbatim>\<open>init_state\<close> made; with \<open>maxiter > 0\<close> the trace begins with the step
  that \<^verbatim>\<open>solver.update\<close> makes on these.
\<close>

lemma run_solver_vars_chain:
  assumes "run_solver_vars L p s x0 mets kw w = Inr (v, w')"
  shows "\<exists>start w1 st w2.
           time_time L w = (start, w1)
         \<and> init_state s x0 kw w1 = Inr (st, w2)
         \<and> update_chain s kw (if is_custom s \<and> x0 = VNone then default_x_init s else x0) st
             (steps (v_trace v))
         \<and> (0 < maxiter s \<longrightarrow>
              (\<exists>x' st' w3 evs.
                 update s (if is_custom s \<and> x0 = VNone then default_x_init s else x0) st kw w2
                   = Inr ((x', st'), w3)
                 \<and> v_trace v = UpdateStep 0 x' w3 # evs))"
proof -
  let ?x = "if is_custom s \<and> x0 = VNone then default_x_init s else x0"
  from run_solver_vars_loop [OF assms] obtain start w1 x st w2 v0 w3 where
    t0: "time_time L w = (start, w1)" and
    ini: "init_state s x0 kw w1 = Inr (st, w2)" and
    x: "x = ?x" and
    loop: "solver_loop p s kw mets (resolve_tol kw) [0 ..< nat (maxiter s)]
             \<lparr>v_sol = x, v_state = st, v_x_prev = x, v_result = Map.empty, v_trace = []\<rparr> w2
             = Inr (v0, w3)" and
    tr: "v_trace v = v_trace v0"
    by (elim exE conjE)
  from solver_loop_chain [OF loop] obtain evs where evs0:
    "v_trace v0 = evs"
    "update_chain s kw x st (steps evs)"
    "\<forall>rest. [0 ..< nat (maxiter s)] = 0 # rest \<longrightarrow>
       (\<exists>x' st' w1 evs'. update s x st kw w2 = Inr ((x', st'), w1)
          \<and> evs = UpdateStep 0 x' w1 # evs')"
    by (elim exE conjE) (rule that, simp_all)
  from evs0(1) tr have tv: "v_trace v = evs" by simp
  from evs0(2) have ch: "update_chain s kw ?x st (steps (v_trace v))"
    by (simp add: tv x)
  have first: "\<exists>x' st' w3 evs. update s ?x st kw w2 = Inr ((x', st'), w3)
      \<and> v_trace v = UpdateStep 0 x' w3 # evs" if "0 < maxiter s"
  proof -
    from that have "0 < nat (maxiter s)" by simp
    then have "[0 ..< nat (maxiter s)] = 0 # [Suc 0 ..< nat (maxiter s)]"
      by (rule upt_conv_Cons)
    with evs0(3) have "\<exists>x' st' w1 evs'. update s x st kw w2 = Inr ((x', st'), w1)
          \<and> evs = UpdateStep 0 x' w1 # evs'"
      by (elim allE impE) auto
    then show ?thesis
      by (simp add: tv x)
  qed
  from first have imp: "0 < maxiter s \<longrightarrow>
      (\<exists>x' st' w3 evs. update s ?x st kw w2 = Inr ((x', st'), w3)
         \<and> v_trace v = UpdateStep 0 x' w3 # evs)"
    by (rule impI)
  show ?thesis
    by (rule exI [of _ start], rule exI [of _ w1], rule exI [of _ st], rule exI [of _ w2],
        intro conjI) (rule t0 ini ch imp)+
qed

lemma run_solver_vars_inv:
  assumes "run_solver_vars L p s x0 mets kw w = Inr (v, w')"
  shows "metrics_inv p mets (steps (v_trace v)) (v_result v)"
proof -
  from run_solver_vars_loop [OF assms] obtain x st w2 v0 w3 where
    loop: "solver_loop p s kw mets (resolve_tol kw) [0 ..< nat (maxiter s)]
             \<lparr>v_sol = x, v_state = st, v_x_prev = x, v_result = Map.empty, v_trace = []\<rparr> w2
             = Inr (v0, w3)" and
    tr: "v_trace v = v_trace v0" and
    res: "\<forall>k. k \<noteq> ''time'' \<longrightarrow> v_result v k = v_result v0 k"
    by (elim exE conjE)
  have "metrics_inv p mets (steps (v_trace v0)) (v_result v0)"
    using solver_loop_inv [OF loop] by (simp add: metrics_inv_def)
  then show ?thesis
    using tr res by (simp add: metrics_inv_def)
qed

lemmas run_solver_eval = run_solver_def run_solver_vars_def resolve_tol_def custom_optimizer_def
  stop_phase_def should_break_def loop_body_def jitted_update_def plain_update_def
  record_metrics_def record_history_x_def record_history_f_def record_nit_def record_errors_def
  append_metric_def halving_solver_def halving_update_def quadratic_problem_def test_lib_def
  eager_custom_solver_def test_kwargs_def test_metrics_def upt_rec Let_def

lemmas store_eval = inplace_solver_def inplace_update_def store_problem_def store_lib_def
  store_world0_def deref_def read_at_def


text \<open>
  Reading an immutable value gives the value, in whatever world; only a reference is read
  through the store.
\<close>

lemma deref_immutable: "\<forall>a. x \<noteq> VRef a \<Longrightarrow> deref w x = x"
  by (cases x) (auto simp: deref_def)

lemma read_at_immutable: "\<forall>a. x \<noteq> VRef a \<Longrightarrow> read_at (x, w) = deref w' x"
  by (simp add: read_at_def deref_immutable)

section \<open>Specified properties of the solver loop\<close>

text \<open>
  C1.  For a built-in method with a tolerance in its configuration, the loop should leave
  at an iteration \<open>i > 0\<close> exactly when \<open>state.error\<close> is below that tolerance.  The code
  never reads the configured value: the guard of the assignment tests the module
  \<^verbatim>\<open>custom_optimizer\<close> and not the flag \<^verbatim>\<open>custom_method\<close>, so the comparison is always
  against \<open>1e-3\<close>.  With \<open>tol = 1e-2\<close> configured and errors \<open>1/200, 1/400, 1/800, 1/1600\<close>
  after the steps, the run goes on past the first step, whose error is already below
  \<open>1e-2\<close>, and stops only after the fourth.
\<close>

theorem configured_tol_not_used:
  "resolve_tol test_kwargs = VFloat (1 / 1000)
   \<and> test_kwargs ''tol'' = Some (VFloat (1 / 100))
   \<and> \<not> isl (run_solver test_lib quadratic_problem (halving_solver 11) (VFloat (1 / 100))
              [''nit'', ''errors''] test_kwargs 0)
   \<and> fst (projr (run_solver test_lib quadratic_problem (halving_solver 11) (VFloat (1 / 100))
              [''nit'', ''errors''] test_kwargs 0)) ''errors''
       = Some [VFloat (1 / 200), VFloat (1 / 400), VFloat (1 / 800), VFloat (1 / 1600)]
   \<and> fst (projr (run_solver test_lib quadratic_problem (halving_solver 11) (VFloat (1 / 100))
              [''nit'', ''errors''] test_kwargs 0)) ''nit'' = Some [VInt 4]"
  by (simp add: run_solver_eval)

text \<open>
  C2.  In every run of \<^verbatim>\<open>__run_solver\<close> that returns, no stop condition is consulted in
  iteration 0 and the first thing that happens in the loop is the update step of
  iteration 0.  A run with \<open>maxiter > 0\<close> has performed at least one update step: its
  trace begins with the step that \<^verbatim>\<open>solver.update\<close> made on the initial solution and the
  state from \<^verbatim>\<open>init_state\<close>, before any stop condition was consulted.
\<close>

theorem first_step_before_any_stop_check:
  assumes "run_solver_vars L p s x0 mets kw w = Inr (v, w')"
  shows "0 \<notin> set (stop_indices (v_trace v))
       \<and> (v_trace v \<noteq> [] \<longrightarrow> (\<exists>x w1. hd (v_trace v) = UpdateStep 0 x w1))
       \<and> (0 < maxiter s \<longrightarrow> step_sols (v_trace v) \<noteq> [])
       \<and> (0 < maxiter s \<longrightarrow>
            (\<exists>start w1 st w2 x' st' w3 evs.
               time_time L w = (start, w1)
             \<and> init_state s x0 kw w1 = Inr (st, w2)
             \<and> update s (if is_custom s \<and> x0 = VNone then default_x_init s else x0) st kw w2
                 = Inr ((x', st'), w3)
             \<and> v_trace v = UpdateStep 0 x' w3 # evs))"
proof (intro conjI impI)
  show "0 \<notin> set (stop_indices (v_trace v))"
    using run_solver_vars_trace(1) [OF assms] by auto
  show "\<exists>x w1. hd (v_trace v) = UpdateStep 0 x w1" if "v_trace v \<noteq> []"
  proof (cases "0 < maxiter s")
    case True
    from run_solver_vars_trace(4) [OF assms True] show ?thesis by auto
  next
    case False
    then have "v_trace v = []"
      using run_solver_vars_trace(5) [OF assms] by simp
    with that show ?thesis by simp
  qed
  show "step_sols (v_trace v) \<noteq> []" if "0 < maxiter s"
    using run_solver_vars_trace(4) [OF assms that] by auto
  show "\<exists>start w1 st w2 x' st' w3 evs.
               time_time L w = (start, w1)
             \<and> init_state s x0 kw w1 = Inr (st, w2)
             \<and> update s (if is_custom s \<and> x0 = VNone then default_x_init s else x0) st kw w2
                 = Inr ((x', st'), w3)
             \<and> v_trace v = UpdateStep 0 x' w3 # evs" if pos: "0 < maxiter s"
  proof -
    let ?x = "if is_custom s \<and> x0 = VNone then default_x_init s else x0"
    from run_solver_vars_chain [OF assms] obtain start w1 st w2 where
      t0: "time_time L w = (start, w1)" and
      ini: "init_state s x0 kw w1 = Inr (st, w2)" and
      first: "0 < maxiter s \<longrightarrow>
              (\<exists>x' st' w3 evs. update s ?x st kw w2 = Inr ((x', st'), w3)
                 \<and> v_trace v = UpdateStep 0 x' w3 # evs)"
      by (elim exE conjE)
    from first pos obtain x' st' w3 evs where
      u: "update s ?x st kw w2 = Inr ((x', st'), w3)" and
      tr: "v_trace v = UpdateStep 0 x' w3 # evs"
      by (elim impE exE conjE)
    show ?thesis
      by (intro exI conjI) (rule t0 ini u tr)+
  qed
qed

theorem first_step_before_any_stop_check_witness:
  "\<exists>v w'. run_solver_vars test_lib quadratic_problem (eager_custom_solver 3) VNone
             test_metrics test_kwargs 0 = Inr (v, w')
     \<and> v_trace v = [UpdateStep 0 (VFloat (1 / 2)) 1, StopCheck 1]
     \<and> 0 \<notin> set (stop_indices (v_trace v))
     \<and> (v_trace v \<noteq> [] \<longrightarrow> (\<exists>x w1. hd (v_trace v) = UpdateStep 0 x w1))
     \<and> (0 < maxiter (eager_custom_solver 3) \<longrightarrow> step_sols (v_trace v) \<noteq> [])
     \<and> (0 < maxiter (eager_custom_solver 3) \<longrightarrow>
          (\<exists>start w1 st w2 x' st' w3 evs.
             time_time test_lib 0 = (start, w1)
           \<and> init_state (eager_custom_solver 3) VNone test_kwargs w1 = Inr (st, w2)
           \<and> update (eager_custom_solver 3)
                (if is_custom (eager_custom_solver 3) \<and> (VNone :: unit val) = VNone
                 then default_x_init (eager_custom_solver 3) else VNone) st test_kwargs w2
               = Inr ((x', st'), w3)
           \<and> v_trace v = UpdateStep 0 x' w3 # evs))"
proof -
  obtain v w' where run:
    "run_solver_vars test_lib quadratic_problem (eager_custom_solver 3) VNone
       test_metrics test_kwargs 0 = Inr (v, w')"
    and tr: "v_trace v = [UpdateStep 0 (VFloat (1 / 2)) 1, StopCheck 1]"
    by (simp add: run_solver_eval)
  note t = first_step_before_any_stop_check [OF run]
  show ?thesis
    by (rule exI [of _ v], rule exI [of _ w'], intro conjI)
      (rule run tr t [THEN conjunct1] t [THEN conjunct2, THEN conjunct1]
         t [THEN conjunct2, THEN conjunct2, THEN conjunct1]
         t [THEN conjunct2, THEN conjunct2, THEN conjunct2])+
qed

text \<open>
  C3.  In every run of \<^verbatim>\<open>__run_solver\<close> that returns, the number of update steps is at
  most \<^verbatim>\<open>solver.maxiter\<close>, whatever the stop conditions answer; \<^verbatim>\<open>range\<close> of a
  number below 1 is empty, so that the bound is \<open>nat (maxiter s)\<close>.
\<close>

theorem update_steps_at_most_maxiter:
  assumes "run_solver_vars L p s x0 mets kw w = Inr (v, w')"
  shows "length (step_sols (v_trace v)) \<le> nat (maxiter s)
       \<and> (0 \<le> maxiter s \<longrightarrow> int (length (step_sols (v_trace v))) \<le> maxiter s)"
  using run_solver_vars_trace(2) [OF assms] by auto

theorem update_steps_at_most_maxiter_witness:
  "\<exists>v w'. run_solver_vars test_lib quadratic_problem (halving_solver 3) (VFloat 1)
             test_metrics test_kwargs 0 = Inr (v, w')
     \<and> length (step_sols (v_trace v)) = 3
     \<and> length (step_sols (v_trace v)) \<le> nat (maxiter (halving_solver 3 :: (unit, nat) solver))
     \<and> (0 \<le> maxiter (halving_solver 3 :: (unit, nat) solver)
          \<longrightarrow> int (length (step_sols (v_trace v))) \<le> maxiter (halving_solver 3 :: (unit, nat) solver))"
proof -
  obtain v w' where run:
    "run_solver_vars test_lib quadratic_problem (halving_solver 3) (VFloat 1)
       test_metrics test_kwargs 0 = Inr (v, w')"
    and n: "length (step_sols (v_trace v)) = 3"
    by (simp add: run_solver_eval)
  show ?thesis
    using update_steps_at_most_maxiter [OF run] run n
    by - (rule exI [of _ v], rule exI [of _ w'], simp)
qed

text \<open>
  C4, as amended.  In every run of \<^verbatim>\<open>__run_solver\<close> that returns with \<open>history_x\<close> and
  \<open>history_f\<close> among the metrics, the steps are a chain of calls of \<^verbatim>\<open>solver.update\<close>,
  made in the iterations \<open>0, 1, ...\<close>.  With \<open>maxiter > 0\<close> the series \<open>history_x\<close> and
  \<open>history_f\<close> have one entry for each step, and \<open>nit\<close>, when requested, is the
  one-element list of their number.  Entry \<open>k\<close> of \<open>history_x\<close> is the object that step
  \<open>k + 1\<close> returned, the object itself and no copy: read after the run it shows what
  the object holds then, which is the solution after step \<open>k + 1\<close> for an immutable
  solution and the last solution for a solver that works on one object in place.
  Entry \<open>k\<close> of \<open>history_f\<close> is the objective at that solution as it was in the world
  step \<open>k + 1\<close> left behind.  In a run with \<open>maxiter \<le> 0\<close> no iteration is made and the
  returned dict has none of the keys \<open>history_x\<close>, \<open>history_f\<close>, \<open>nit\<close>.
\<close>

theorem history_series_follow_steps:
  assumes "run_solver_vars L p s x0 mets kw w = Inr (v, w')"
    and "''history_x'' \<in> set mets" and "''history_f'' \<in> set mets"
  shows "run_solver L p s x0 mets kw w = Inr (v_result v, w')
       \<and> step_indices (v_trace v) = [0 ..< length (steps (v_trace v))]
       \<and> (\<exists>start w1 st w2.
             time_time L w = (start, w1)
           \<and> init_state s x0 kw w1 = Inr (st, w2)
           \<and> update_chain s kw (if is_custom s \<and> x0 = VNone then default_x_init s else x0) st
               (steps (v_trace v)))
       \<and> (maxiter s \<le> 0 \<longrightarrow>
            steps (v_trace v) = [] \<and> v_result v ''history_x'' = None
            \<and> v_result v ''history_f'' = None \<and> v_result v ''nit'' = None)
       \<and> (0 < maxiter s \<longrightarrow>
            steps (v_trace v) \<noteq> []
            \<and> v_result v ''history_x'' = Some (map fst (steps (v_trace v)))
            \<and> (\<exists>ys. v_result v ''history_f'' = Some ys
                  \<and> length ys = length (steps (v_trace v))
                  \<and> map (\<lambda>xw. problem_f p (fst xw) (snd xw)) (steps (v_trace v)) = map Inr ys)
            \<and> (''nit'' \<in> set mets \<longrightarrow>
                  v_result v ''nit'' = Some [VInt (int (length (steps (v_trace v))))]))"
proof (intro conjI impI)
  note inv = run_solver_vars_inv [OF assms(1)]
  have len: "length (step_sols (v_trace v)) = length (steps (v_trace v))"
    by (simp add: step_sols_steps)
  show "run_solver L p s x0 mets kw w = Inr (v_result v, w')"
    using assms(1) by (simp add: run_solver_def)
  show "step_indices (v_trace v) = [0 ..< length (steps (v_trace v))]"
    using run_solver_vars_trace(3) [OF assms(1)] unfolding len .
  show "\<exists>start w1 st w2.
             time_time L w = (start, w1)
           \<and> init_state s x0 kw w1 = Inr (st, w2)
           \<and> update_chain s kw (if is_custom s \<and> x0 = VNone then default_x_init s else x0) st
               (steps (v_trace v))"
  proof -
    from run_solver_vars_chain [OF assms(1)] obtain start w1 st w2 where
      t0: "time_time L w = (start, w1)" and
      ini: "init_state s x0 kw w1 = Inr (st, w2)" and
      ch: "update_chain s kw (if is_custom s \<and> x0 = VNone then default_x_init s else x0) st
             (steps (v_trace v))"
      by (elim exE conjE)
    show ?thesis
      by (intro exI conjI) (rule t0 ini ch)+
  qed
  {
    assume "maxiter s \<le> 0"
    from run_solver_vars_trace(5) [OF assms(1) this]
    show "steps (v_trace v) = []" and "v_result v ''history_x'' = None"
      and "v_result v ''history_f'' = None" and "v_result v ''nit'' = None"
      by simp_all
  }
  {
    assume pos: "0 < maxiter s"
    from run_solver_vars_trace(4) [OF assms(1) pos]
    show ne: "steps (v_trace v) \<noteq> []" by auto
    show "v_result v ''history_x'' = Some (map fst (steps (v_trace v)))"
      using inv ne assms(2) by (simp add: metrics_inv_def)
    from inv ne assms(3) obtain ys where
      ys: "v_result v ''history_f'' = Some ys"
        "map (\<lambda>xw. problem_f p (fst xw) (snd xw)) (steps (v_trace v)) = map Inr ys"
      by (auto simp: metrics_inv_def)
    from ys(2) have "length (map (\<lambda>xw. problem_f p (fst xw) (snd xw)) (steps (v_trace v)))
        = length (map Inr ys)"
      by simp
    then have "length ys = length (steps (v_trace v))"
      by simp
    with ys show "\<exists>ys. v_result v ''history_f'' = Some ys
        \<and> length ys = length (steps (v_trace v))
        \<and> map (\<lambda>xw. problem_f p (fst xw) (snd xw)) (steps (v_trace v)) = map Inr ys"
      by simp
    show "v_result v ''nit'' = Some [VInt (int (length (steps (v_trace v))))]"
      if "''nit'' \<in> set mets"
      using inv ne that by (simp add: metrics_inv_def)
  }
qed

theorem history_series_follow_steps_witness:
  "\<exists>v w'. run_solver_vars store_lib store_problem (inplace_solver 2) VNone
             test_metrics test_kwargs store_world0 = Inr (v, w')
     \<and> ''history_x'' \<in> set test_metrics \<and> ''history_f'' \<in> set test_metrics
     \<and> 0 < maxiter (inplace_solver 2)
     \<and> ''nit'' \<in> set test_metrics
     \<and> map fst (steps (v_trace v)) = [VRef 0, VRef 0]
     \<and> map read_at (steps (v_trace v)) = [VFloat 1, VFloat 2]
     \<and> v_result v ''history_x'' = Some (map fst (steps (v_trace v)))
     \<and> v_result v ''history_f'' = Some [VFloat 1, VFloat 4]
     \<and> v_result v ''nit'' = Some [VInt (int (length (steps (v_trace v))))]
     \<and> run_solver store_lib store_problem (inplace_solver 2) VNone
             test_metrics test_kwargs store_world0 = Inr (v_result v, w')"
proof -
  obtain v w' where run:
    "run_solver_vars store_lib store_problem (inplace_solver 2) VNone
       test_metrics test_kwargs store_world0 = Inr (v, w')"
    and sols: "map fst (steps (v_trace v)) = [VRef 0, VRef 0]"
    and vals: "map read_at (steps (v_trace v)) = [VFloat 1, VFloat 2]"
    and hf: "v_result v ''history_f'' = Some [VFloat 1, VFloat 4]"
    by (simp add: run_solver_eval store_eval)
  have mets: "''history_x'' \<in> set test_metrics" "''history_f'' \<in> set test_metrics"
    "''nit'' \<in> set test_metrics"
    by (simp_all add: test_metrics_def)
  have pos: "0 < maxiter (inplace_solver 2)"
    by (simp add: inplace_solver_def)
  note t = history_series_follow_steps [OF run mets(1,2)]
  note t5 = t [THEN conjunct2, THEN conjunct2, THEN conjunct2, THEN conjunct2, rule_format, OF pos]
  from t5 have hx: "v_result v ''history_x'' = Some (map fst (steps (v_trace v)))"
    by (elim conjE)
  from t5 mets(3) have nit: "v_result v ''nit'' = Some [VInt (int (length (steps (v_trace v))))]"
    by (elim conjE impE)
  show ?thesis
    by (rule exI [of _ v], rule exI [of _ w'], intro conjI)
      (rule run mets pos sols vals hx hf nit t [THEN conjunct1])+
qed

text \<open>
  The property as the specification states it fails in two places.  With \<open>maxiter = 0\<close>
  the run returns a dict without the keys \<open>history_x\<close> and \<open>history_f\<close>, so there is no
  series whose length could be the number of iterations.  And with the optimizer that
  works in place, three steps leave the solutions 1, 2 and 3, as the objective values 1,
  4 and 9 show, while all three entries of \<open>history_x\<close> are the one object, which holds
  3 when the run returns.
\<close>

theorem history_series_absent_or_aliased:
  "\<not> isl (run_solver test_lib quadratic_problem (halving_solver 0) (VFloat 1)
            test_metrics test_kwargs 0)
   \<and> ''history_x'' \<in> set test_metrics \<and> ''history_f'' \<in> set test_metrics
   \<and> fst (projr (run_solver test_lib quadratic_problem (halving_solver 0) (VFloat 1)
            test_metrics test_kwargs 0)) ''history_x'' = None
   \<and> fst (projr (run_solver test_lib quadratic_problem (halving_solver 0) (VFloat 1)
            test_metrics test_kwargs 0)) ''history_f'' = None
   \<and> \<not> isl (run_solver_vars store_lib store_problem (inplace_solver 3) VNone
            test_metrics test_kwargs store_world0)
   \<and> map read_at (steps (v_trace (fst (projr (run_solver_vars store_lib store_problem
            (inplace_solver 3) VNone test_metrics test_kwargs store_world0)))))
       = [VFloat 1, VFloat 2, VFloat 3]
   \<and> fst (projr (run_solver store_lib store_problem (inplace_solver 3) VNone
            test_metrics test_kwargs store_world0)) ''history_x''
       = Some [VRef 0, VRef 0, VRef 0]
   \<and> map (deref (snd (projr (run_solver store_lib store_problem (inplace_solver 3) VNone
            test_metrics test_kwargs store_world0)))) [VRef 0, VRef 0, VRef 0]
       = [VFloat 3, VFloat 3, VFloat 3]
   \<and> fst (projr (run_solver store_lib store_problem (inplace_solver 3) VNone
            test_metrics test_kwargs store_world0)) ''history_f''
       = Some [VFloat 1, VFloat 4, VFloat 9]"
  by (simp add: run_solver_eval store_eval)

section \<open>Properties of \<^verbatim>\<open>Benchmark.run\<close>\<close>

text \<open>One method: either it is skipped, or its name, its data entry and the pop are made.\<close>

lemma run_method_skip:
  "\<not> is_run um (m, a) \<Longrightarrow> run_method L b um (m, a) rs = Inr rs"
  by (simp add: run_method_def is_run_def)

lemma run_method_built_in:
  assumes "prefix ''GRADIENT_DESCENT'' m"
  shows "run_method L b um (m, a) rs =
     (case GradientDescent L (problem b) ((rs_heap rs a)(''x_init'' := None)) of
        Inl e \<Rightarrow> Inl e
      | Inr s \<Rightarrow>
          (case call_run_solver L (problem b) (s\<lparr>is_custom := False\<rparr>)
                  (case rs_heap rs a ''x_init'' of None \<Rightarrow> VNone | Some x \<Rightarrow> x) (metrics b)
                  ((rs_heap rs a)(''x_init'' := None)) (rs_world rs) of
             Inl e \<Rightarrow> Inl e
           | Inr (sub, w1) \<Rightarrow>
               Inr \<lparr>rs_methods = rs_methods rs @ [m], rs_data = (rs_data rs)(m \<mapsto> sub),
                    rs_heap = (rs_heap rs)(a := (rs_heap rs a)(''x_init'' := None)),
                    rs_world = w1\<rparr>))"
proof (cases "rs_heap rs a ''x_init''")
  case None
  then have "(rs_heap rs a)(''x_init'' := None) = rs_heap rs a"
    by (simp add: fun_upd_idem)
  with None assms show ?thesis
    by (simp add: run_method_def Let_def cong: sum.case_cong prod.case_cong)
next
  case (Some x)
  with assms show ?thesis
    by (simp add: run_method_def Let_def cong: sum.case_cong prod.case_cong)
qed

lemma run_method_user:
  assumes "\<not> prefix ''GRADIENT_DESCENT'' m"
  shows "run_method L b (Some u) (m, a) rs =
     (case (case rs_heap rs a ''x_init'' of None \<Rightarrow> Inr VNone | Some x \<Rightarrow> jnp_array L x) of
        Inl e \<Rightarrow> Inl e
      | Inr x0 \<Rightarrow>
          (case call_run_solver L (problem b) u x0 (metrics b)
                  ((rs_heap rs a)(''x_init'' := None)) (rs_world rs) of
             Inl e \<Rightarrow> Inl e
           | Inr (sub, w1) \<Rightarrow>
               Inr \<lparr>rs_methods = rs_methods rs @ [m], rs_data = (rs_data rs)(m \<mapsto> sub),
                    rs_heap = (rs_heap rs)(a := (rs_heap rs a)(''x_init'' := None)),
                    rs_world = w1\<rparr>))"
proof (cases "rs_heap rs a ''x_init''")
  case None
  then have "(rs_heap rs a)(''x_init'' := None) = rs_heap rs a"
    by (simp add: fun_upd_idem)
  with None assms show ?thesis
    by (simp add: run_method_def Let_def cong: sum.case_cong prod.case_cong)
next
  case (Some x)
  with assms show ?thesis
    by (cases "jnp_array L x")
      (simp_all add: run_method_def Let_def cong: sum.case_cong prod.case_cong)
qed

lemma run_method_Inr:
  assumes "run_method L b um (m, a) rs = Inr rs'" and "is_run um (m, a)"
  shows "rs_methods rs' = rs_methods rs @ [m]"
    and "dom (rs_data rs') = insert m (dom (rs_data rs))"
    and "rs_heap rs' = (rs_heap rs)(a := (rs_heap rs a)(''x_init'' := None))"
proof -
  have "rs_methods rs' = rs_methods rs @ [m]
      \<and> dom (rs_data rs') = insert m (dom (rs_data rs))
      \<and> rs_heap rs' = (rs_heap rs)(a := (rs_heap rs a)(''x_init'' := None))"
  proof (cases "prefix ''GRADIENT_DESCENT'' m")
    case True
    from assms(1) show ?thesis
      unfolding run_method_built_in [OF True]
      by (auto split: sum.splits prod.splits)
  next
    case False
    with assms(2) obtain u where um: "um = Some u"
      by (auto simp: is_run_def)
    from assms(1) show ?thesis
      unfolding um run_method_user [OF False]
      by (auto split: sum.splits prod.splits)
  qed
  then show "rs_methods rs' = rs_methods rs @ [m]"
    and "dom (rs_data rs') = insert m (dom (rs_data rs))"
    and "rs_heap rs' = (rs_heap rs)(a := (rs_heap rs a)(''x_init'' := None))"
    by simp_all
qed

text \<open>The method depends on the benchmark through its problem and its metrics only.\<close>

lemma run_method_cong:
  assumes p: "problem b' = problem b" and m: "metrics b' = metrics b"
  shows "run_method L b' um ma rs = run_method L b um ma rs"
  unfolding run_method_def p m by (rule refl)

lemma run_item_cong:
  assumes p: "problem b' = problem b" and m: "metrics b' = metrics b"
  shows "run_item L b' um item rs = run_item L b um item rs"
  by (induction item arbitrary: rs)
    (simp_all add: run_method_cong [OF p m] cong: sum.case_cong)

lemma run_item_append:
  "run_item L b um (xs @ ys) rs =
     (case run_item L b um xs rs of Inl e \<Rightarrow> Inl e | Inr rs1 \<Rightarrow> run_item L b um ys rs1)"
  by (induction xs arbitrary: rs) (simp_all split: sum.splits)

lemma run_items_concat: "run_items L b um items rs = run_item L b um (concat items) rs"
  by (induction items arbitrary: rs) (simp_all add: run_item_append split: sum.splits)

text \<open>Skipped methods can be dropped from an item without changing anything.\<close>

lemma run_item_filter:
  "run_item L b um (filter (is_run um) item) rs = run_item L b um item rs"
  by (induction item arbitrary: rs) (auto simp: run_method_skip split: sum.splits)

text \<open>A completed pass over the configured methods.\<close>

lemma run_item_Inr:
  "run_item L b um item rs = Inr rs' \<Longrightarrow>
     rs_methods rs' = rs_methods rs @ map fst (filter (is_run um) item)
     \<and> dom (rs_data rs') = dom (rs_data rs) \<union> fst ` set (filter (is_run um) item)
     \<and> (\<forall>a. rs_heap rs' a =
            (if a \<in> snd ` set (filter (is_run um) item) then (rs_heap rs a)(''x_init'' := None)
             else rs_heap rs a))"
proof (induction item arbitrary: rs)
  case Nil
  then show ?case by simp
next
  case (Cons ma item)
  obtain m a where ma: "ma = (m, a)" by (cases ma)
  from Cons.prems obtain rs1 where
    one: "run_method L b um (m, a) rs = Inr rs1" and
    rest: "run_item L b um item rs1 = Inr rs'"
    by (auto simp: ma split: sum.splits)
  note IH = Cons.IH [OF rest]
  show ?case
  proof (cases "is_run um (m, a)")
    case False
    with one have "rs1 = rs" by (simp add: run_method_skip)
    with IH False show ?thesis by (simp add: ma)
  next
    case True
    note m1 = run_method_Inr [OF one True]
    have "rs_methods rs' = rs_methods rs @ map fst (filter (is_run um) (ma # item))"
      using IH m1(1) True by (simp add: ma)
    moreover have "dom (rs_data rs') = dom (rs_data rs) \<union> fst ` set (filter (is_run um) (ma # item))"
      using IH m1(2) True by (simp add: ma)
    moreover have "rs_heap rs' a' =
        (if a' \<in> snd ` set (filter (is_run um) (ma # item)) then (rs_heap rs a')(''x_init'' := None)
         else rs_heap rs a')" for a'
      using IH m1(3) True by (simp add: ma)
    ultimately show ?thesis by simp
  qed
qed

lemma run_item_ran:
  assumes "run_item L b um item rs = Inr rs'"
  defines "R \<equiv> {ma \<in> set item. prefix ''GRADIENT_DESCENT'' (fst ma) \<or> um \<noteq> None}"
  shows "set (rs_methods rs') = set (rs_methods rs) \<union> fst ` R"
    and "dom (rs_data rs') = dom (rs_data rs) \<union> fst ` R"
    and "rs_heap rs' a = (if a \<in> snd ` R then (rs_heap rs a)(''x_init'' := None) else rs_heap rs a)"
proof -
  have R: "set (filter (is_run um) item) = R"
    unfolding R_def by (auto simp: is_run_def)
  note facts = run_item_Inr [OF assms(1), unfolded R]
  from facts have "rs_methods rs' = rs_methods rs @ map fst (filter (is_run um) item)"
    by (rule conjunct1)
  then have "set (rs_methods rs') = set (rs_methods rs) \<union> fst ` set (filter (is_run um) item)"
    by (simp only: set_append set_map)
  then show "set (rs_methods rs') = set (rs_methods rs) \<union> fst ` R"
    unfolding R .
  from facts show "dom (rs_data rs') = dom (rs_data rs) \<union> fst ` R"
    by (elim conjE)
  from facts have "\<forall>a. rs_heap rs' a =
      (if a \<in> snd ` R then (rs_heap rs a)(''x_init'' := None) else rs_heap rs a)"
    by (elim conjE)
  then show "rs_heap rs' a =
      (if a \<in> snd ` R then (rs_heap rs a)(''x_init'' := None) else rs_heap rs a)"
    by (rule spec)
qed

lemma run_Inr:
  assumes "run L b um h w = Inr (res, h', w')"
  shows "\<exists>rs. run_item L b um (concat (methods b)) (initial_run_state h w) = Inr rs
           \<and> res_methods res = rs_methods rs \<and> res_data res = rs_data rs
           \<and> h' = rs_heap rs"
  using assms by (auto simp: run_def run_items_concat split: sum.splits)

text \<open>A completed run: the names recorded, the keys of the data, and the heap left behind.\<close>

lemma run_ran:
  assumes "run L b um h w = Inr (res, h', w')"
  defines "R \<equiv> {ma \<in> set (concat (methods b)). prefix ''GRADIENT_DESCENT'' (fst ma) \<or> um \<noteq> None}"
  shows "set (res_methods res) = fst ` R"
    and "dom (res_data res) = fst ` R"
    and "h' a = (if a \<in> snd ` R then (h a)(''x_init'' := None) else h a)"
proof -
  from run_Inr [OF assms(1)] obtain rs where
    rs: "run_item L b um (concat (methods b)) (initial_run_state h w) = Inr rs" and
    res: "res_methods res = rs_methods rs" "res_data res = rs_data rs" "h' = rs_heap rs"
    by (elim exE conjE)
  have ini: "rs_methods (initial_run_state h w :: ('a, 'b) run_state) = []"
    "rs_data (initial_run_state h w :: ('a, 'b) run_state) = Map.empty"
    "rs_heap (initial_run_state h w :: ('a, 'b) run_state) = h"
    by (simp_all add: initial_run_state_def)
  note facts = run_item_ran [OF rs, folded R_def, unfolded ini]
  from facts(1) show "set (res_methods res) = fst ` R"
    unfolding res by simp
  from facts(2) show "dom (res_data res) = fst ` R"
    unfolding res by simp
  from facts(3) [of a] show "h' a = (if a \<in> snd ` R then (h a)(''x_init'' := None) else h a)"
    unfolding res .
qed

lemmas run_eval = run_def run_method_def call_run_solver_def keyword_clash_def
  initial_run_state_def test_heap_def test_benchmark_def failing_benchmark_def
  later_methods_benchmark_def is_run_def

section \<open>Specified properties of \<^verbatim>\<open>Benchmark.run\<close> and of the constructor\<close>

lemma is_run_None: "is_run None = (\<lambda>ma. prefix ''GRADIENT_DESCENT'' (fst ma))"
  by (simp add: is_run_def fun_eq_iff)

text \<open>
  C5.  When \<^verbatim>\<open>run\<close> returns, the names in \<^verbatim>\<open>res.methods\<close> are exactly the keys of the
  per-problem data mapping, and they are the configured names that were run: those
  with the built-in prefix, and all of them when a user method is given.  A name that
  is not run is in neither.
\<close>

theorem recorded_methods_are_data_keys:
  assumes "run L b um h w = Inr (res, h', w')"
  shows "set (res_methods res) = dom (res_data res)
       \<and> set (res_methods res)
           = fst ` {ma \<in> set (concat (methods b)). prefix ''GRADIENT_DESCENT'' (fst ma) \<or> um \<noteq> None}"
proof
  show "set (res_methods res) = dom (res_data res)"
    unfolding run_ran(1) [OF assms] run_ran(2) [OF assms] ..
  show "set (res_methods res)
      = fst ` {ma \<in> set (concat (methods b)). prefix ''GRADIENT_DESCENT'' (fst ma) \<or> um \<noteq> None}"
    by (rule run_ran(1) [OF assms])
qed

theorem recorded_methods_are_data_keys_witness:
  "\<exists>res h' w'. run test_lib test_benchmark None test_heap 0 = Inr (res, h', w')
     \<and> res_methods res = [''GRADIENT_DESCENT_const_step'', ''GRADIENT_DESCENT_adaptive_step'']
     \<and> set (res_methods res) = dom (res_data res)
     \<and> set (res_methods res)
         = fst ` {ma \<in> set (concat (methods test_benchmark)).
                    prefix ''GRADIENT_DESCENT'' (fst ma) \<or> (None :: (unit, nat) solver option) \<noteq> None}"
proof -
  obtain res h' w' where run: "run test_lib test_benchmark None test_heap 0 = Inr (res, h', w')"
    and names: "res_methods res = [''GRADIENT_DESCENT_const_step'', ''GRADIENT_DESCENT_adaptive_step'']"
    by (simp add: run_eval run_solver_eval)
  note t = recorded_methods_are_data_keys [OF run]
  show ?thesis
    by (intro exI conjI) (rule run names t [THEN conjunct1] t [THEN conjunct2])+
qed

text \<open>
  C6, as amended.  \<^verbatim>\<open>run\<close> does not catch what a solver loop raises.  When the methods
  before \<open>(m, a)\<close> have been run to completion and the run of \<open>(m, a)\<close> raises \<open>e\<close>, then
  \<^verbatim>\<open>run\<close> itself raises \<open>e\<close>, whatever methods are configured after it: no result is
  returned for any method.  At the raise the data mapping has entries for the methods
  run before and for nothing else, so none for \<open>m\<close> unless an earlier method bears the
  same name.
\<close>

theorem failing_method_ends_run:
  assumes "concat (methods b) = pre @ (m, a) # post"
    and "run_item L b um pre (initial_run_state h w) = Inr rs"
    and "run_method L b um (m, a) rs = Inl e"
  shows "run L b um h w = Inl e
       \<and> dom (rs_data rs)
           = fst ` {ma \<in> set pre. prefix ''GRADIENT_DESCENT'' (fst ma) \<or> um \<noteq> None}
       \<and> (m \<notin> fst ` set pre \<longrightarrow> rs_data rs m = None)"
proof -
  have "run_item L b um (concat (methods b)) (initial_run_state h w) = Inl e"
    using assms by (simp add: run_item_append)
  then have 1: "run L b um h w = Inl e"
    by (simp add: run_def run_items_concat)
  have "dom (rs_data (initial_run_state h w :: ('a, 'b) run_state)) = {}"
    by (simp add: initial_run_state_def)
  with run_item_ran(2) [OF assms(2)] have
    2: "dom (rs_data rs) = fst ` {ma \<in> set pre. prefix ''GRADIENT_DESCENT'' (fst ma) \<or> um \<noteq> None}"
    by (simp only: Un_empty_left)
  have 3: "rs_data rs m = None" if "m \<notin> fst ` set pre"
  proof -
    from that 2 have "m \<notin> dom (rs_data rs)" by auto
    then show ?thesis by (simp add: domIff)
  qed
  from 1 2 3 show ?thesis by (intro conjI impI)
qed

theorem failing_method_ends_run_witness:
  "\<exists>rs. concat (methods failing_benchmark)
          = [(''GRADIENT_DESCENT_const_step'', 0)] @ (''GRADIENT_DESCENT_no_init'', 2)
              # [(''GRADIENT_DESCENT_adaptive_step'', 1)]
     \<and> run_item test_lib failing_benchmark None [(''GRADIENT_DESCENT_const_step'', 0)]
          (initial_run_state test_heap 0) = Inr rs
     \<and> run_method test_lib failing_benchmark None (''GRADIENT_DESCENT_no_init'', 2) rs
          = Inl TypeError
     \<and> run test_lib failing_benchmark None test_heap 0 = Inl TypeError
     \<and> dom (rs_data rs) = {''GRADIENT_DESCENT_const_step''}
     \<and> rs_data rs ''GRADIENT_DESCENT_no_init'' = None"
proof -
  have cfg: "concat (methods failing_benchmark)
          = [(''GRADIENT_DESCENT_const_step'', 0)] @ (''GRADIENT_DESCENT_no_init'', 2)
              # [(''GRADIENT_DESCENT_adaptive_step'', 1)]"
    by (simp add: failing_benchmark_def)
  obtain rs where pre:
    "run_item test_lib failing_benchmark None [(''GRADIENT_DESCENT_const_step'', 0)]
          (initial_run_state test_heap 0) = Inr rs"
    and fail: "run_method test_lib failing_benchmark None (''GRADIENT_DESCENT_no_init'', 2) rs
          = Inl TypeError"
    by (simp add: run_eval run_solver_eval)
  have names: "fst ` {ma \<in> set [(''GRADIENT_DESCENT_const_step'', 0 :: nat)].
        prefix ''GRADIENT_DESCENT'' (fst ma) \<or> (None :: (unit, nat) solver option) \<noteq> None}
      = {''GRADIENT_DESCENT_const_step''}"
    by auto
  have new: "''GRADIENT_DESCENT_no_init'' \<notin> fst ` set [(''GRADIENT_DESCENT_const_step'', 0 :: nat)]"
    by simp
  note t = failing_method_ends_run [OF cfg pre fail]
  from t have 1: "run test_lib failing_benchmark None test_heap 0 = Inl TypeError"
    by (rule conjunct1)
  from t have 2: "dom (rs_data rs) = {''GRADIENT_DESCENT_const_step''}"
    unfolding names by (elim conjE)
  from t new have 3: "rs_data rs ''GRADIENT_DESCENT_no_init'' = None"
    by (elim conjE impE)
  show ?thesis
    by (intro exI conjI) (rule cfg pre fail 1 2 3)+
qed

text \<open>
  The property as the specification states it fails: with a method whose loop raises configured between
  two others, \<^verbatim>\<open>run\<close> ends with that exception and returns nothing, although the method
  configured last completes when it is configured alone.
\<close>

theorem failing_method_stops_the_others:
  "run test_lib failing_benchmark None test_heap 0 = Inl TypeError
   \<and> \<not> isl (run test_lib later_methods_benchmark None test_heap 0)
   \<and> res_methods (fst (projr (run test_lib later_methods_benchmark None test_heap 0)))
       = [''GRADIENT_DESCENT_adaptive_step'']"
  by (simp add: run_eval run_solver_eval)

text \<open>
  C7.  \<^verbatim>\<open>check_metric\<close> is true exactly for the lists all of whose names are in the
  allow-list, which makes it independent of order and duplicates, and when it is false
  the constructor ends in \<^verbatim>\<open>exit(1)\<close>.
\<close>

theorem check_metric_fails_closed:
  "check_metric L names = (set names \<subseteq> set (metrics_available L))
   \<and> (set names = set names' \<longrightarrow> check_metric L names = check_metric L names')
   \<and> (\<not> check_metric L names \<longrightarrow> Benchmark_init L p ms names = Inl (SystemExit 1))"
proof -
  have 1: "check_metric L xs = (set xs \<subseteq> set (metrics_available L))" for xs
    by (auto simp: check_metric_def list_all_iff)
  have 2: "Benchmark_init L p ms names = Inl (SystemExit 1)" if "\<not> check_metric L names"
    using that by (simp add: Benchmark_init_def Let_def)
  from 1 2 show ?thesis by simp
qed

theorem check_metric_fails_closed_witness:
  "set [''nit'', ''loss''] = set [''loss'', ''nit'', ''loss'']
   \<and> \<not> check_metric test_lib [''nit'', ''loss'']
   \<and> \<not> check_metric test_lib [''loss'', ''nit'', ''loss'']
   \<and> Benchmark_init test_lib quadratic_problem (methods test_benchmark) [''nit'', ''loss'']
       = Inl (SystemExit 1)
   \<and> check_metric test_lib test_metrics"
proof -
  have s: "set [''nit'', ''loss''] = set [''loss'', ''nit'', ''loss'']"
    by auto
  have n: "\<not> set [''nit'', ''loss''] \<subseteq> set (metrics_available test_lib)"
    by (simp add: test_lib_def)
  have y: "set test_metrics \<subseteq> set (metrics_available test_lib)"
    by (simp add: test_lib_def test_metrics_def)
  note t = check_metric_fails_closed
             [of test_lib "[''nit'', ''loss'']" "[''loss'', ''nit'', ''loss'']"
                quadratic_problem "methods test_benchmark"]
  from t [THEN conjunct1] n have c1: "\<not> check_metric test_lib [''nit'', ''loss'']"
    by (rule ssubst)
  from c1 have c2: "\<not> check_metric test_lib [''loss'', ''nit'', ''loss'']"
    unfolding t [THEN conjunct2, THEN conjunct1, rule_format, OF s] .
  note c3 = t [THEN conjunct2, THEN conjunct2, rule_format, OF c1]
  from check_metric_fails_closed [of test_lib test_metrics test_metrics, THEN conjunct1] y
  have c4: "check_metric test_lib test_metrics"
    by (rule ssubst)
  show ?thesis
    by (intro conjI) (rule s c1 c2 c3 c4)+
qed

text \<open>
  C8, as amended.  \<^verbatim>\<open>run\<close> removes the entry \<^verbatim>\<open>x_init\<close> from the parameter dict of every
  method it runs and changes nothing else: when it returns, every other entry of every
  dict is as it was, and the dicts of methods that were not run are unchanged.
\<close>

theorem run_changes_only_x_init:
  assumes "run L b um h w = Inr (res, h', w')"
  shows "(\<forall>a. h' a =
            (if a \<in> snd ` {ma \<in> set (concat (methods b)).
                              prefix ''GRADIENT_DESCENT'' (fst ma) \<or> um \<noteq> None}
             then (h a)(''x_init'' := None) else h a))
       \<and> (\<forall>a k. k \<noteq> ''x_init'' \<longrightarrow> h' a k = h a k)"
proof (intro conjI allI impI)
  fix a
  show "h' a = (if a \<in> snd ` {ma \<in> set (concat (methods b)).
                              prefix ''GRADIENT_DESCENT'' (fst ma) \<or> um \<noteq> None}
             then (h a)(''x_init'' := None) else h a)"
    by (rule run_ran(3) [OF assms])
next
  fix a k
  assume k: "k \<noteq> ''x_init''"
  note eq = run_ran(3) [OF assms, of a]
  show "h' a k = h a k"
  proof (cases "a \<in> snd ` {ma \<in> set (concat (methods b)).
                              prefix ''GRADIENT_DESCENT'' (fst ma) \<or> um \<noteq> None}")
    case True
    with eq have "h' a = (h a)(''x_init'' := None)"
      by (simp only: if_True)
    with k show ?thesis by simp
  next
    case False
    with eq have "h' a = h a"
      by (simp only: if_False)
    then show ?thesis by simp
  qed
qed

theorem run_changes_only_x_init_witness:
  "\<exists>res h' w'. run test_lib test_benchmark None test_heap 0 = Inr (res, h', w')
     \<and> h' 0 = (test_heap 0)(''x_init'' := None)
     \<and> h' 3 = test_heap 3
     \<and> h' 0 ''maxiter'' = test_heap 0 ''maxiter''"
proof -
  obtain res h' w' where run: "run test_lib test_benchmark None test_heap 0 = Inr (res, h', w')"
    by (simp add: run_eval run_solver_eval)
  have in0: "(0 :: nat) \<in> snd ` {ma \<in> set (concat (methods test_benchmark)).
        prefix ''GRADIENT_DESCENT'' (fst ma) \<or> (None :: (unit, nat) solver option) \<noteq> None}"
    by (simp add: test_benchmark_def image_iff)
  have out3: "(3 :: nat) \<notin> snd ` {ma \<in> set (concat (methods test_benchmark)).
        prefix ''GRADIENT_DESCENT'' (fst ma) \<or> (None :: (unit, nat) solver option) \<noteq> None}"
    by (simp add: test_benchmark_def image_iff)
  note t = run_changes_only_x_init [OF run]
  from t [THEN conjunct1, rule_format, of 0] in0
  have 1: "h' 0 = (test_heap 0)(''x_init'' := None)"
    by (simp only: if_True)
  from t [THEN conjunct1, rule_format, of 3] out3
  have 2: "h' 3 = test_heap 3"
    by (simp only: if_False)
  have "''maxiter'' \<noteq> ''x_init''" by simp
  from t [THEN conjunct2, rule_format, OF this]
  have 3: "h' 0 ''maxiter'' = test_heap 0 ''maxiter''" .
  show ?thesis
    by (intro exI conjI) (rule run 1 2 3)+
qed

text \<open>
  The property as the specification states it fails: the first configuration of the test benchmark holds
  \<^verbatim>\<open>x_init\<close> before the run and no longer after it.
\<close>

theorem run_pops_x_init:
  "\<not> isl (run test_lib test_benchmark None test_heap 0)
   \<and> test_heap 0 ''x_init'' = Some (VFloat 1)
   \<and> fst (snd (projr (run test_lib test_benchmark None test_heap 0))) 0 ''x_init'' = None"
  by (simp add: run_eval run_solver_eval)

text \<open>
  C10.  Without a user method, a configured method whose name does not start with
  \<^verbatim>\<open>GRADIENT_DESCENT\<close> is skipped in silence: \<^verbatim>\<open>run\<close> behaves as if these methods were not
  configured at all, a benchmark with no other methods returns an empty result with
  the dicts and the world untouched, and in a returned result such a name is neither in
  the method list nor a key of the data.
\<close>

theorem methods_without_prefix_are_skipped:
  "run L b None h w
     = run L (b\<lparr>methods := map (filter (\<lambda>ma. prefix ''GRADIENT_DESCENT'' (fst ma))) (methods b)\<rparr>)
         None h w
   \<and> ((\<forall>ma \<in> set (concat (methods b)). \<not> prefix ''GRADIENT_DESCENT'' (fst ma)) \<longrightarrow>
        run L b None h w
          = Inr (\<lparr>res_problem = problem b, res_methods = [], res_metrics = metrics b,
                  res_data = Map.empty\<rparr>, h, w))
   \<and> (\<forall>res h' w'. run L b None h w = Inr (res, h', w') \<longrightarrow>
        (\<forall>ma \<in> set (concat (methods b)). \<not> prefix ''GRADIENT_DESCENT'' (fst ma) \<longrightarrow>
           fst ma \<notin> set (res_methods res) \<and> res_data res (fst ma) = None))"
proof (intro conjI allI impI ballI)
  let ?P = "\<lambda>ma :: string \<times> nat. prefix ''GRADIENT_DESCENT'' (fst ma)"
  let ?b = "b\<lparr>methods := map (filter ?P) (methods b)\<rparr>"
  let ?rs = "initial_run_state h w :: ('a, 'b) run_state"
  have flt: "run_item L b None (filter ?P (concat (methods b))) ?rs
      = run_item L b None (concat (methods b)) ?rs"
    using run_item_filter [of L b None "concat (methods b)" ?rs] by (simp add: is_run_None)
  have "run_item L ?b None (concat (methods ?b)) ?rs
      = run_item L b None (filter ?P (concat (methods b))) ?rs"
    by (simp add: run_item_cong [of ?b b] filter_concat)
  with flt show "run L b None h w = run L ?b None h w"
    by (simp add: run_def run_items_concat cong: sum.case_cong)
  show "run L b None h w
          = Inr (\<lparr>res_problem = problem b, res_methods = [], res_metrics = metrics b,
                  res_data = Map.empty\<rparr>, h, w)"
    if "\<forall>ma \<in> set (concat (methods b)). \<not> prefix ''GRADIENT_DESCENT'' (fst ma)"
  proof -
    from that have "filter ?P (concat (methods b)) = []"
      by (simp add: filter_empty_conv)
    with flt have "run_item L b None (concat (methods b)) ?rs = Inr ?rs"
      by simp
    then show ?thesis
      by (simp add: run_def run_items_concat initial_run_state_def)
  qed
  fix res h' w' ma
  assume run: "run L b None h w = Inr (res, h', w')"
    and ma: "ma \<in> set (concat (methods b))" and np: "\<not> prefix ''GRADIENT_DESCENT'' (fst ma)"
  have nin: "fst ma \<notin> fst ` {ma \<in> set (concat (methods b)).
      prefix ''GRADIENT_DESCENT'' (fst ma) \<or> (None :: ('a, 'b) solver option) \<noteq> None}"
    using np by auto
  from nin show "fst ma \<notin> set (res_methods res)"
    unfolding run_ran(1) [OF run] .
  from nin have "fst ma \<notin> dom (res_data res)"
    unfolding run_ran(2) [OF run] .
  then show "res_data res (fst ma) = None"
    by (simp add: domIff)
qed

theorem methods_without_prefix_are_skipped_witness:
  "\<exists>res h' w'. run test_lib test_benchmark None test_heap 0 = Inr (res, h', w')
     \<and> (''NEWTON'', 3) \<in> set (concat (methods test_benchmark))
     \<and> \<not> prefix ''GRADIENT_DESCENT'' ''NEWTON''
     \<and> ''NEWTON'' \<notin> set (res_methods res) \<and> res_data res ''NEWTON'' = None"
proof -
  obtain res h' w' where run: "run test_lib test_benchmark None test_heap 0 = Inr (res, h', w')"
    by (simp add: run_eval run_solver_eval)
  have cfg: "(''NEWTON'', 3) \<in> set (concat (methods test_benchmark))"
    by (simp add: test_benchmark_def)
  have np: "\<not> prefix ''GRADIENT_DESCENT'' (fst (''NEWTON'', 3 :: nat))"
    by simp
  note t = methods_without_prefix_are_skipped [of test_lib test_benchmark test_heap 0]
  from t [THEN conjunct2, THEN conjunct2, rule_format, OF run cfg np]
  have 1: "''NEWTON'' \<notin> set (res_methods res)" and 2: "res_data res ''NEWTON'' = None"
    by simp_all
  have np': "\<not> prefix ''GRADIENT_DESCENT'' ''NEWTON''"
    by simp
  show ?thesis
    by (intro exI conjI) (rule run cfg np' 1 2)+
qed

section \<open>Properties of the plotter\<close>

text \<open>What the body of the inner loop adds for one method and one option.\<close>

lemma option_traces_Inr:
  assumes "option_traces mdf m mk fc opts opt = Inr tr"
  shows "\<exists>std. df_columns mdf (opt_value opt @ ''_std'') = Some std
           \<and> map t_name tr = (if list_all (\<lambda>v. v = 0) std then [m]
                                else [m, ''mean + std'', ''mean - std''])"
    and "\<forall>t \<in> set tr. t_visible t = (opt_value opt = opt_value (hd opts))"
proof -
  from assms obtain mean where mean: "get_column mdf (opt_value opt @ ''_mean'') = Inr mean"
    by (cases "get_column mdf (opt_value opt @ ''_mean'')") (simp_all add: option_traces_def)
  from assms mean obtain first others where opts: "opts = first # others"
    by (cases opts) (simp_all add: option_traces_def)
  from assms mean opts obtain std where std: "get_column mdf (opt_value opt @ ''_std'') = Inr std"
    by (cases "get_column mdf (opt_value opt @ ''_std'')") (simp_all add: option_traces_def Let_def)
  then have col: "df_columns mdf (opt_value opt @ ''_std'') = Some std"
    by (simp add: get_column_def split: option.splits)
  show "\<exists>std. df_columns mdf (opt_value opt @ ''_std'') = Some std
           \<and> map t_name tr = (if list_all (\<lambda>v. v = 0) std then [m]
                                else [m, ''mean + std'', ''mean - std''])"
  proof (intro exI conjI)
    show "df_columns mdf (opt_value opt @ ''_std'') = Some std" by (rule col)
    show "map t_name tr = (if list_all (\<lambda>v. v = 0) std then [m]
                           else [m, ''mean + std'', ''mean - std''])"
      using assms mean opts std
      by (cases "list_all (\<lambda>v. v = 0) std") (auto simp: option_traces_def Let_def)
  qed
  show "\<forall>t \<in> set tr. t_visible t = (opt_value opt = opt_value (hd opts))"
    using assms mean opts std
    by (cases "list_all (\<lambda>v. v = 0) std") (auto simp: option_traces_def Let_def)
qed

lemma options_loop_Inr:
  "options_loop mdf m mk fc opts os fig = Inr fig' \<Longrightarrow>
     \<exists>groups. fig' = fig @ concat groups
        \<and> list_all2 (\<lambda>opt tr. option_traces mdf m mk fc opts opt = Inr tr) os groups"
proof (induction os arbitrary: fig)
  case Nil
  then show ?case by simp
next
  case (Cons opt os)
  from Cons.prems obtain tr where
    tr: "option_traces mdf m mk fc opts opt = Inr tr" and
    rest: "options_loop mdf m mk fc opts os (fig @ tr) = Inr fig'"
    by (auto split: sum.splits)
  from Cons.IH [OF rest] obtain groups where
    g: "fig' = (fig @ tr) @ concat groups"
       "list_all2 (\<lambda>opt tr. option_traces mdf m mk fc opts opt = Inr tr) os groups"
    by (elim exE conjE)
  have "fig' = fig @ concat (tr # groups)"
    using g(1) by simp
  moreover have "list_all2 (\<lambda>opt tr. option_traces mdf m mk fc opts opt = Inr tr)
      (opt # os) (tr # groups)"
    using tr g(2) by simp
  ultimately show ?case
    by (intro exI [of _ "tr # groups"] conjI)
qed

lemma methods_loop_Inr:
  "methods_loop df opts ims fig = Inr fig' \<Longrightarrow>
     \<exists>groups. fig' = fig @ concat groups
        \<and> list_all2
            (\<lambda>imo tr. option_traces (method_rows df (snd (fst imo))) (snd (fst imo))
                         (method_marker (fst (fst imo))) (method_fillcolor (fst (fst imo)))
                         opts (snd imo) = Inr tr)
            (List.product ims opts) groups"
proof (induction ims arbitrary: fig)
  case Nil
  then show ?case by simp
next
  case (Cons im ims)
  obtain i m where im: "im = (i, m)" by (cases im)
  from Cons.prems obtain fig1 where
    one: "options_loop (method_rows df m) m (method_marker i) (method_fillcolor i) opts opts fig
            = Inr fig1" and
    rest: "methods_loop df opts ims fig1 = Inr fig'"
    by (auto simp: im split: sum.splits)
  from options_loop_Inr [OF one] obtain g1 where
    g1: "fig1 = fig @ concat g1"
        "list_all2 (\<lambda>opt tr. option_traces (method_rows df m) m (method_marker i)
                      (method_fillcolor i) opts opt = Inr tr) opts g1"
    by (elim exE conjE)
  from Cons.IH [OF rest] obtain g2 where
    g2: "fig' = fig1 @ concat g2"
        "list_all2
            (\<lambda>imo tr. option_traces (method_rows df (snd (fst imo))) (snd (fst imo))
                         (method_marker (fst (fst imo))) (method_fillcolor (fst (fst imo)))
                         opts (snd imo) = Inr tr)
            (List.product ims opts) g2"
    by (elim exE conjE)
  have "fig' = fig @ concat (g1 @ g2)"
    using g1(1) g2(1) by simp
  moreover have "list_all2
            (\<lambda>imo tr. option_traces (method_rows df (snd (fst imo))) (snd (fst imo))
                         (method_marker (fst (fst imo))) (method_fillcolor (fst (fst imo)))
                         opts (snd imo) = Inr tr)
            (List.product (im # ims) opts) (g1 @ g2)"
    using g1(2) g2(2) by (simp add: im list_all2_appendI list_all2_map1)
  ultimately show ?case
    by (intro exI [of _ "g1 @ g2"] conjI)
qed

lemmas plot_eval = plotly_figure_data_def unique_def method_rows_def select_rows_def
  option_traces_def get_column_def method_marker_def method_fillcolor_def markers_def
  colors_rgba_def colors_rgba_faint_def test_dataframe_def test_options_def enumerate_eq_zip
  upt_rec Let_def

section \<open>Specified property of the plotter\<close>

text \<open>
  C9, as amended.  The traces of a figure built by \<^verbatim>\<open>plotly_figure\<close> come in groups, one
  for every method and every dropdown option in the order of the two loops.  A group
  starts with the mean trace, named after the method, and holds the two band traces as
  well exactly when the method's standard-deviation column of that option is not zero
  throughout.  Every trace of a group is created with
  \<^verbatim>\<open>visible = (option["value"] == dropdown_options[0]["value"])\<close>: under the first option
  the mean trace of each method is visible, together with its band traces if it has
  them, and the traces of an option whose value differs from that of the first are
  created hidden.
\<close>

theorem figure_trace_visibility:
  assumes "plotly_figure_data df opts = Inr fig"
  shows "\<exists>groups. fig = concat groups
       \<and> list_all2
           (\<lambda>((i_method, method), opt) tr.
              (\<exists>std. df_columns (method_rows df method) (opt_value opt @ ''_std'') = Some std
                    \<and> map t_name tr = (if list_all (\<lambda>v. v = 0) std then [method]
                                         else [method, ''mean + std'', ''mean - std'']))
              \<and> (\<forall>t \<in> set tr. t_visible t = (opt_value opt = opt_value (hd opts))))
           (List.product (enumerate 0 (unique (df_Method df))) opts) groups"
proof -
  from assms have "methods_loop df opts (enumerate 0 (unique (df_Method df))) [] = Inr fig"
    by (simp add: plotly_figure_data_def)
  from methods_loop_Inr [OF this] obtain groups where
    fig: "fig = [] @ concat groups" and
    all: "list_all2
            (\<lambda>imo tr. option_traces (method_rows df (snd (fst imo))) (snd (fst imo))
                         (method_marker (fst (fst imo))) (method_fillcolor (fst (fst imo)))
                         opts (snd imo) = Inr tr)
            (List.product (enumerate 0 (unique (df_Method df))) opts) groups"
    by (elim exE conjE)
  let ?Q = "\<lambda>((i_method, method), opt) tr.
              (\<exists>std. df_columns (method_rows df method) (opt_value opt @ ''_std'') = Some std
                    \<and> map t_name tr = (if list_all (\<lambda>v. v = 0) std then [method]
                                         else [method, ''mean + std'', ''mean - std'']))
              \<and> (\<forall>t \<in> set tr. t_visible t = (opt_value opt = opt_value (hd opts)))"
  have "list_all2 ?Q (List.product (enumerate 0 (unique (df_Method df))) opts) groups"
    using all
  proof (rule list_all2_mono)
    fix imo :: "(nat \<times> string) \<times> dropdown_option" and tr
    assume ot: "option_traces (method_rows df (snd (fst imo))) (snd (fst imo))
                  (method_marker (fst (fst imo))) (method_fillcolor (fst (fst imo)))
                  opts (snd imo) = Inr tr"
    obtain i m opt where imo: "imo = ((i, m), opt)"
      by (cases imo) auto
    note facts = option_traces_Inr [OF ot [unfolded imo fst_conv snd_conv]]
    show "?Q imo tr"
      unfolding imo prod.case using facts by - (rule conjI, assumption+)
  qed
  with fig show ?thesis
    by (intro exI [of _ groups] conjI) simp_all
qed

theorem figure_trace_visibility_witness:
  "\<exists>fig groups. plotly_figure_data test_dataframe test_options = Inr fig
     \<and> unique (df_Method test_dataframe) = [''GD'', ''CSGD'']
     \<and> map t_visible fig = [True, False, True, True, True, False]
     \<and> fig = concat groups
     \<and> list_all2
         (\<lambda>((i_method, method), opt) tr.
            (\<exists>std. df_columns (method_rows test_dataframe method) (opt_value opt @ ''_std'')
                      = Some std
                  \<and> map t_name tr = (if list_all (\<lambda>v. v = 0) std then [method]
                                       else [method, ''mean + std'', ''mean - std'']))
            \<and> (\<forall>t \<in> set tr. t_visible t = (opt_value opt = opt_value (hd test_options))))
         (List.product (enumerate 0 (unique (df_Method test_dataframe))) test_options) groups"
proof -
  obtain fig where run: "plotly_figure_data test_dataframe test_options = Inr fig"
    and vis: "map t_visible fig = [True, False, True, True, True, False]"
    by (simp add: plot_eval)
  have two: "unique (df_Method test_dataframe) = [''GD'', ''CSGD'']"
    by (simp add: unique_def test_dataframe_def)
  from figure_trace_visibility [OF run] obtain groups where
    g: "fig = concat groups"
       "list_all2
         (\<lambda>((i_method, method), opt) tr.
            (\<exists>std. df_columns (method_rows test_dataframe method) (opt_value opt @ ''_std'')
                      = Some std
                  \<and> map t_name tr = (if list_all (\<lambda>v. v = 0) std then [method]
                                       else [method, ''mean + std'', ''mean - std'']))
            \<and> (\<forall>t \<in> set tr. t_visible t = (opt_value opt = opt_value (hd test_options))))
         (List.product (enumerate 0 (unique (df_Method test_dataframe))) test_options) groups"
    by (elim exE conjE)
  show ?thesis
    by (intro exI conjI) (rule run two vis g)+
qed

text \<open>
  The property as the specification states it fails: in the test dataframe the second method has a
  standard deviation for the first option, and three of its traces are visible under
  that option, not one.
\<close>

theorem band_traces_visible_with_mean:
  "\<not> isl (plotly_figure_data test_dataframe test_options)
   \<and> map t_hovertext (filter t_visible (projr (plotly_figure_data test_dataframe test_options)))
       = [''GD - f'', ''CSGD - f'', ''CSGD - f_upper'', ''CSGD - f_lower'']"
  by (simp add: plot_eval)

end
